theory Spec2Isabelle
  imports Main "HOL-Library.Sublist"
begin

section \<open>llvm-html: the driver, its annotation writer and its CSS inliner\<close>

text \<open>
  A shallow embedding of \<^verbatim>\<open>llvm-html.cpp\<close>. Strings are \<open>string\<close> (lists of bytes),
  \<^verbatim>\<open>size_t\<close> and \<^verbatim>\<open>unsigned\<close> values that are only counted and printed are \<open>nat\<close>.
\<close>

subsection \<open>Decimal rendering of unsigned numbers\<close>

text \<open>
  \<^verbatim>\<open>std::to_string(size_t)\<close> and \<^verbatim>\<open>raw_ostream::operator<<(unsigned)\<close> both write
  the decimal digits of the number, most significant first, with no leading zero.
\<close>

definition digit_char :: "nat \<Rightarrow> char" where
  "digit_char d = ''0123456789'' ! d"

fun to_string :: "nat \<Rightarrow> string" where
  "to_string n = (if n < 10 then [digit_char n] else to_string (n div 10) @ [digit_char (n mod 10)])"

declare to_string.simps [simp del]

subsection \<open>Output file name resolution (main, lines 228-246)\<close>

text \<open>\<^verbatim>\<open>StringRef::endswith\<close> and \<^verbatim>\<open>StringRef::drop_back\<close>.\<close>

definition endswith :: "string \<Rightarrow> string \<Rightarrow> bool" where
  "endswith s suf = suffix suf s"

definition drop_back :: "nat \<Rightarrow> string \<Rightarrow> string" where
  "drop_back n s = take (length s - n) s"

text \<open>
  The value of \<^verbatim>\<open>FinalFilename\<close> when the output file of module \<open>I\<close> of a container with
  \<open>N\<close> modules is opened. \<open>OutputFilename\<close> is the value of \<^verbatim>\<open>-o\<close> (empty when the option is
  absent), \<open>DontPrint\<close> the flag \<^verbatim>\<open>--disable-output\<close>.
\<close>

definition resolveFinalFilename :: "string \<Rightarrow> bool \<Rightarrow> string \<Rightarrow> nat \<Rightarrow> nat \<Rightarrow> string" where
  "resolveFinalFilename OutputFilename DontPrint InputFilename N I =
     (let FinalFilename = (if DontPrint then ''-'' else OutputFilename) in
      if FinalFilename = [] then
        (if InputFilename = ''-'' then ''-''
         else
           (let IFN = InputFilename;
                F1 = (if endswith IFN ''.bc'' then drop_back 3 IFN else IFN);
                F2 = (if N > 1 then F1 @ ''.'' @ to_string I else F1)
            in F2 @ ''.html''))
      else
        (if N > 1 then FinalFilename @ ''.'' @ to_string I else FinalFilename))"

subsection \<open>Debug locations (printDebugLoc, lines 87-93)\<close>

text \<open>
  A \<^verbatim>\<open>formatted_raw_ostream\<close> is the list of what has been sent to it: characters, and
  the calls of \<^verbatim>\<open>PadToColumn\<close> with their column.
\<close>

datatype fitem = FChar char | FPad nat

definition ftext :: "string \<Rightarrow> fitem list" where
  "ftext s = map FChar s"

text \<open>
  \<^verbatim>\<open>DILocation\<close> nodes live in the context and refer to their inlined-at parent by
  pointer. The nodes are a store from addresses to nodes; \<open>getInlinedAt\<close> is \<open>None\<close> for
  the null pointer. Nothing in the store's type keeps a chain from running into a cycle.
\<close>

record DILocation =
  getLine :: nat
  getCol :: nat
  getInlinedAt :: "nat option"

type_synonym metadata = "nat \<Rightarrow> DILocation"

partial_function (option) printDebugLoc :: "metadata \<Rightarrow> nat \<Rightarrow> fitem list \<Rightarrow> fitem list option" where
  "printDebugLoc MD DL OS =
     (let OS1 = OS @ ftext (to_string (getLine (MD DL))) @ ftext '':''
                   @ ftext (to_string (getCol (MD DL)))
      in case getInlinedAt (MD DL) of
           None \<Rightarrow> Some OS1
         | Some IDL \<Rightarrow> printDebugLoc MD IDL (OS1 @ ftext ''@''))"

declare printDebugLoc.simps [code]

text \<open>The inlined-at chain that starts at an address is finite: it reaches a null parent.\<close>

inductive finite_chain :: "metadata \<Rightarrow> nat \<Rightarrow> bool" for MD :: metadata where
  chain_end: "getInlinedAt (MD a) = None \<Longrightarrow> finite_chain MD a"
| chain_step: "getInlinedAt (MD a) = Some b \<Longrightarrow> finite_chain MD b \<Longrightarrow> finite_chain MD a"

subsection \<open>The annotation writer (CommentWriter, lines 95-137)\<close>

text \<open>
  What the writer reads of a \<^verbatim>\<open>Value\<close>: whether its type is void, the text its type
  prints as, its number of uses, and, when \<^verbatim>\<open>dyn_cast<Instruction>\<close> succeeds, the
  instruction's debug location (\<open>None\<close> when it has none) and whether it is a
  \<^verbatim>\<open>DbgDeclareInst\<close> or a \<^verbatim>\<open>DbgValueInst\<close>, with the name of its variable.
\<close>

datatype InstKind = DbgDeclareInst string | DbgValueInst string | OtherInst

record Instruction =
  getDebugLoc :: "nat option"
  instKind :: InstKind

record Value =
  isVoidTy :: bool
  typeText :: string
  getNumUses :: nat
  asInstruction :: "Instruction option"

definition emitFunctionAnnot :: "nat \<Rightarrow> fitem list \<Rightarrow> fitem list" where
  "emitFunctionAnnot numUses OS =
     OS @ ftext ''; [#uses='' @ ftext (to_string numUses) @ ftext '']'' @ [FChar (CHR 0x0A)]"

text \<open>The three steps of \<^verbatim>\<open>printInfoComment\<close>; each passes on the stream and \<open>Padded\<close>.\<close>

definition print_uses :: "Value \<Rightarrow> fitem list \<times> bool \<Rightarrow> fitem list \<times> bool" where
  "print_uses V st =
     (case st of (OS, Padded) \<Rightarrow>
        if \<not> isVoidTy V
        then (OS @ [FPad 50] @ ftext ''; [#uses='' @ ftext (to_string (getNumUses V))
                 @ ftext '' type='' @ ftext (typeText V) @ ftext '']'', True)
        else (OS, Padded))"

definition print_debug_line :: "metadata \<Rightarrow> Instruction \<Rightarrow> fitem list \<times> bool \<Rightarrow> (fitem list \<times> bool) option" where
  "print_debug_line MD I st =
     (case st of (OS, Padded) \<Rightarrow>
        (case getDebugLoc I of
           None \<Rightarrow> Some (OS, Padded)
         | Some DL \<Rightarrow>
             (let st1 = (if \<not> Padded then (OS @ [FPad 50] @ ftext '';'', True) else (OS, Padded))
              in case printDebugLoc MD DL (fst st1 @ ftext '' [debug line = '') of
                   None \<Rightarrow> None
                 | Some OS2 \<Rightarrow> Some (OS2 @ ftext '']'', snd st1))))"

definition print_debug_variable :: "Instruction \<Rightarrow> fitem list \<times> bool \<Rightarrow> fitem list" where
  "print_debug_variable I st =
     (case st of (OS, Padded) \<Rightarrow>
        (case instKind I of
           DbgDeclareInst name \<Rightarrow>
             (if \<not> Padded then OS @ [FPad 50] @ ftext '';'' else OS)
               @ ftext '' [debug variable = '' @ ftext name @ ftext '']''
         | DbgValueInst name \<Rightarrow>
             (if \<not> Padded then OS @ [FPad 50] @ ftext '';'' else OS)
               @ ftext '' [debug variable = '' @ ftext name @ ftext '']''
         | OtherInst \<Rightarrow> OS))"

text \<open>\<open>None\<close>: the call does not return (the debug location's chain never ends).\<close>

definition printInfoComment :: "metadata \<Rightarrow> Value \<Rightarrow> fitem list \<Rightarrow> fitem list option" where
  "printInfoComment MD V OS =
     (let st1 = print_uses V (OS, False)
      in case asInstruction V of
           None \<Rightarrow> Some (fst st1)
         | Some I \<Rightarrow>
             (case print_debug_line MD I st1 of
                None \<Rightarrow> None
              | Some st2 \<Rightarrow> Some (print_debug_variable I st2)))"

text \<open>
  The comment of a value, piece by piece, to state what \<^verbatim>\<open>printInfoComment\<close> writes:
  the three fragments, and the comment they make, which is padded once and opened by a
  single semicolon when there is any fragment at all.
\<close>

definition uses_fragment :: "Value \<Rightarrow> fitem list" where
  "uses_fragment V =
     (if isVoidTy V then []
      else ftext '' [#uses='' @ ftext (to_string (getNumUses V)) @ ftext '' type=''
             @ ftext (typeText V) @ ftext '']'')"

definition debug_line_fragment :: "metadata \<Rightarrow> Value \<Rightarrow> fitem list option" where
  "debug_line_fragment MD V =
     (case asInstruction V of
        None \<Rightarrow> Some []
      | Some I \<Rightarrow>
          (case getDebugLoc I of
             None \<Rightarrow> Some []
           | Some DL \<Rightarrow>
               map_option (\<lambda>r. ftext '' [debug line = '' @ r @ ftext '']'')
                 (printDebugLoc MD DL [])))"

definition debug_variable_fragment :: "Value \<Rightarrow> fitem list" where
  "debug_variable_fragment V =
     (case asInstruction V of
        None \<Rightarrow> []
      | Some I \<Rightarrow>
          (case instKind I of
             DbgDeclareInst name \<Rightarrow> ftext '' [debug variable = '' @ ftext name @ ftext '']''
           | DbgValueInst name \<Rightarrow> ftext '' [debug variable = '' @ ftext name @ ftext '']''
           | OtherInst \<Rightarrow> []))"

definition comment :: "fitem list \<Rightarrow> fitem list" where
  "comment frags = (if frags = [] then [] else [FPad 50] @ ftext '';'' @ frags)"

text \<open>The number of \<^verbatim>\<open>PadToColumn\<close> calls in a piece of output.\<close>

definition pad_count :: "fitem list \<Rightarrow> nat" where
  "pad_count xs = length (filter (\<lambda>x. case x of FPad n \<Rightarrow> True | FChar c \<Rightarrow> False) xs)"

text \<open>
  Two locations, the first inlined at the second, and two instructions at the first: an
  \<^verbatim>\<open>i32\<close> instruction with twelve uses, and a \<^verbatim>\<open>dbg.value\<close> call for the variable \<open>x\<close>.
\<close>

definition example_metadata :: metadata where
  "example_metadata =
     (\<lambda>a. if a = 0 then \<lparr>getLine = 3, getCol = 4, getInlinedAt = Some 1\<rparr>
          else \<lparr>getLine = 30, getCol = 40, getInlinedAt = None\<rparr>)"

definition example_value :: Value where
  "example_value =
     \<lparr>isVoidTy = False, typeText = ''i32'', getNumUses = 12,
      asInstruction = Some \<lparr>getDebugLoc = Some 0, instKind = OtherInst\<rparr>\<rparr>"

definition example_dbg_value :: Value where
  "example_dbg_value =
     \<lparr>isVoidTy = True, typeText = ''void'', getNumUses = 0,
      asInstruction = Some \<lparr>getDebugLoc = Some 0, instKind = DbgValueInst ''x''\<rparr>\<rparr>"

subsection \<open>The diagnostic handler (LLVMHtmlDiagnosticHandler, lines 139-160)\<close>

text \<open>
  The error stream is the list of the characters written to it, each either plain or in
  one of the highlight colours of \<^verbatim>\<open>WithColor\<close>. \<^verbatim>\<open>WithColor::error(OS)\<close> writes
  \<open>error: \<close> in the error colour and resets the colour; likewise for warning and note.
\<close>

datatype HighlightColor = HC_Error | HC_Warning | HC_Note

datatype err_item = Plain char | Colored HighlightColor char

definition plain :: "string \<Rightarrow> err_item list" where
  "plain s = map Plain s"

definition colored :: "HighlightColor \<Rightarrow> string \<Rightarrow> err_item list" where
  "colored c s = map (Colored c) s"

datatype DiagnosticSeverity = DS_Error | DS_Warning | DS_Remark | DS_Note

text \<open>A diagnostic: its severity and the message \<^verbatim>\<open>DI.print\<close> writes.\<close>

record DiagnosticInfo =
  getSeverity :: DiagnosticSeverity
  message :: string

text \<open>How a call ends: \<^verbatim>\<open>exit(code)\<close>, or a return with a value.\<close>

datatype 'a outcome = Exit int | Return 'a

definition severity_label :: "DiagnosticSeverity \<Rightarrow> err_item list" where
  "severity_label sev =
     (case sev of
        DS_Error \<Rightarrow> colored HC_Error ''error: ''
      | DS_Warning \<Rightarrow> colored HC_Warning ''warning: ''
      | DS_Remark \<Rightarrow> plain ''remark: ''
      | DS_Note \<Rightarrow> colored HC_Note ''note: '')"

definition handleDiagnostics :: "string \<Rightarrow> DiagnosticInfo \<Rightarrow> err_item list \<Rightarrow> err_item list \<times> bool outcome" where
  "handleDiagnostics Prefix DI OS =
     (let OS1 = OS @ plain Prefix @ plain '': '';
          OS2 = OS1 @ severity_label (getSeverity DI);
          OS3 = OS2 @ plain (message DI) @ plain [CHR 0x0A]
      in if getSeverity DI = DS_Error then (OS3, Exit 1) else (OS3, Return True))"

subsection \<open>The CSS inliner (inlineCSS, lines 163-169)\<close>

text \<open>
  \<^verbatim>\<open>std::regex("<link.*>")\<close> is an ECMAScript pattern: the five characters \<open><link\<close>, a
  greedy \<open>.*\<close> whose \<open>.\<close> takes any character but a line terminator (LF, CR), and \<open>>\<close>.

  \<open>match_rest s\<close> matches \<open>.*>\<close> at the head of \<open>s\<close> the way the backtracking matcher
  does and gives the number of characters of the match: the star first takes one more
  character and goes on; when that fails it stops and the \<open>>\<close> must be next.
\<close>

definition is_line_terminator :: "char \<Rightarrow> bool" where
  "is_line_terminator c = (c = CHR 0x0A \<or> c = CHR 0x0D)"

fun match_rest :: "string \<Rightarrow> nat option" where
  "match_rest [] = None"
| "match_rest (c # cs) =
     (if is_line_terminator c then None
      else (case match_rest cs of
              Some n \<Rightarrow> Some (Suc n)
            | None \<Rightarrow> (if c = CHR ''>'' then Some 1 else None)))"

text \<open>The whole pattern, anchored at the head of \<open>s\<close>: the length of the match.\<close>

definition match_here :: "string \<Rightarrow> nat option" where
  "match_here s =
     (if prefix ''<link'' s then map_option (\<lambda>n. 5 + n) (match_rest (drop 5 s)) else None)"

text \<open>
  \<^verbatim>\<open>regex_search\<close>: the match at the leftmost position that has one, as the text before
  it, the match and the text after it.
\<close>

fun regex_search :: "string \<Rightarrow> (string \<times> string \<times> string) option" where
  "regex_search [] = None"
| "regex_search (c # cs) =
     (case match_here (c # cs) of
        Some n \<Rightarrow> Some ([], take n (c # cs), drop n (c # cs))
      | None \<Rightarrow> map_option (\<lambda>(p, m, s). (c # p, m, s)) (regex_search cs))"

text \<open>
  \<^verbatim>\<open>match_results::format\<close> with the default (ECMAScript) rules, for a pattern with no
  capture group: \<open>$$\<close> is a dollar, \<open>$&\<close> the match, \<open>$`\<close> the text before the match,
  \<open>$'\<close> the text after it, \<open>$n\<close> and \<open>$nn\<close> the sub-match \<open>n\<close> (the match for 0, empty
  otherwise); any other \<open>$\<close> stands for itself.
\<close>

definition is_digit :: "char \<Rightarrow> bool" where
  "is_digit c = (c \<in> set ''0123456789'')"

definition digit_value :: "char \<Rightarrow> nat" where
  "digit_value c = of_char c - 48"

definition sub_match :: "string \<Rightarrow> nat \<Rightarrow> string" where
  "sub_match m n = (if n = 0 then m else [])"

fun format :: "string \<Rightarrow> string \<Rightarrow> string \<Rightarrow> string \<Rightarrow> string" where
  "format [] pre m suf = []"
| "format [c] pre m suf = [c]"
| "format (c # d # fmt) pre m suf =
     (if c \<noteq> CHR ''$'' then c # format (d # fmt) pre m suf
      else if d = CHR ''$'' then CHR ''$'' # format fmt pre m suf
      else if d = CHR ''&'' then m @ format fmt pre m suf
      else if d = CHR 0x60 then pre @ format fmt pre m suf
      else if d = CHR 0x27 then suf @ format fmt pre m suf
      else if is_digit d then
        (case fmt of
           [] \<Rightarrow> sub_match m (digit_value d)
         | e # fmt' \<Rightarrow>
             if is_digit e
             then sub_match m (10 * digit_value d + digit_value e) @ format fmt' pre m suf
             else sub_match m (digit_value d) @ format fmt pre m suf)
      else CHR ''$'' # format (d # fmt) pre m suf)"

text \<open>
  \<^verbatim>\<open>std::regex_replace\<close> with the default flags: every match found from left to right,
  each search starting where the last match ended, is replaced by the formatted
  replacement; the text between the matches and after the last one is copied.
\<close>

function regex_replace :: "string \<Rightarrow> string \<Rightarrow> string" where
  "regex_replace s fmt =
     (case regex_search s of
        None \<Rightarrow> s
      | Some (p, m, suf) \<Rightarrow> p @ format fmt p m suf @ regex_replace suf fmt)"
  by pat_completeness auto
termination
proof (relation "measure (\<lambda>(s, fmt). length s)")
  show "wf (measure (\<lambda>(s, fmt). length s))" by simp
next
  fix s fmt :: string and x2 :: "string \<times> string \<times> string" and p m suf :: string
    and y :: "string \<times> string"
  assume a: "regex_search s = Some x2" "(p, y) = x2" "(m, suf) = y"
  have shorter: "regex_search t = Some (q, m, suf) \<Longrightarrow> length suf < length t" for t q
  proof (induction t arbitrary: q)
    case Nil
    then show ?case by simp
  next
    case (Cons c cs)
    show ?case
    proof (cases "match_here (c # cs)")
      case None
      with Cons.prems obtain q' where "regex_search cs = Some (q', m, suf)"
        by (auto split: option.splits)
      from Cons.IH [OF this] show ?thesis by simp
    next
      case (Some n)
      then have "n > 0" by (auto simp: match_here_def split: if_splits)
      with Some Cons.prems show ?thesis by auto
    qed
  qed
  from a have "regex_search s = Some (p, m, suf)" by auto
  from shorter [OF this] show "((suf, fmt), (s, fmt)) \<in> measure (\<lambda>(s, fmt). length s)"
    by simp
qed

declare regex_replace.simps [simp del]

text \<open>The number of matches \<^verbatim>\<open>regex_replace\<close> replaces in \<open>s\<close>.\<close>

function count_matches :: "string \<Rightarrow> nat" where
  "count_matches s =
     (case regex_search s of
        None \<Rightarrow> 0
      | Some (p, m, suf) \<Rightarrow> Suc (count_matches suf))"
  by pat_completeness auto
termination
proof (relation "measure length")
  show "wf (measure length)" by simp
next
  fix s :: string and x2 :: "string \<times> string \<times> string" and p m suf :: string
    and y :: "string \<times> string"
  assume a: "regex_search s = Some x2" "(p, y) = x2" "(m, suf) = y"
  have shorter: "regex_search t = Some (q, m, suf) \<Longrightarrow> length suf < length t" for t q
  proof (induction t arbitrary: q)
    case Nil
    then show ?case by simp
  next
    case (Cons c cs)
    show ?case
    proof (cases "match_here (c # cs)")
      case None
      with Cons.prems obtain q' where "regex_search cs = Some (q', m, suf)"
        by (auto split: option.splits)
      from Cons.IH [OF this] show ?thesis by simp
    next
      case (Some n)
      then have "n > 0" by (auto simp: match_here_def split: if_splits)
      with Some Cons.prems show ?thesis by auto
    qed
  qed
  from a have "regex_search s = Some (p, m, suf)" by auto
  from shorter [OF this] show "(suf, s) \<in> measure length"
    by simp
qed

declare count_matches.simps [simp del]

text \<open>The output stream of a file is the text written to it.\<close>

definition ReplacementString :: "string \<Rightarrow> string" where
  "ReplacementString CSS = ''<style> '' @ [CHR 0x0A] @ CSS @ ''</style> '' @ [CHR 0x0A]"

definition inlineCSS :: "string \<Rightarrow> string \<Rightarrow> string \<Rightarrow> string" where
  "inlineCSS OS Out CSS = OS @ regex_replace Out (ReplacementString CSS)"

text \<open>
  What the pattern stands for, without the matcher: a placeholder is \<open><link\<close>, then
  characters none of which ends a line, then \<open>>\<close>; a text has a placeholder when one
  occurs somewhere in it. No occurrence of the pattern starts inside \<open>p\<close> when \<open>r\<close>
  follows it: \<open>leftmost p r\<close>.
\<close>

definition no_terminator :: "string \<Rightarrow> bool" where
  "no_terminator x = (\<forall>c \<in> set x. \<not> is_line_terminator c)"

definition has_placeholder :: "string \<Rightarrow> bool" where
  "has_placeholder s = (\<exists>p x t. s = p @ ''<link'' @ x @ ''>'' @ t \<and> no_terminator x)"

definition is_tag :: "string \<Rightarrow> bool" where
  "is_tag m = (\<exists>y. m = ''<link'' @ y @ ''>'' \<and> no_terminator y)"

definition leftmost :: "string \<Rightarrow> string \<Rightarrow> bool" where
  "leftmost p r = (\<forall>a b. p = a @ b \<and> b \<noteq> [] \<longrightarrow> match_here (b @ r) = None)"

subsection \<open>The driver (main, lines 173-282)\<close>

text \<open>The command line after \<^verbatim>\<open>cl::ParseCommandLineOptions\<close>.\<close>

record options =
  argv0 :: string
  InputFilenames :: "string list"
  OutputFilename :: string
  Force :: bool
  DontPrint :: bool
  SetImporting :: bool
  ShowAnnotations :: bool
  PreserveAssemblyUseListOrder :: bool
  MaterializeMetadata :: bool
  PrintThinLTOIndexOnly :: bool

text \<open>
  What the driver calls and does not define: the LLVM library and the HTML printer of
  \<^verbatim>\<open>HTMLAsmWriter.cpp\<close>. \<open>'bm\<close> is \<^verbatim>\<open>BitcodeModule\<close>, \<open>'m\<close> is \<^verbatim>\<open>Module\<close>, \<open>'ix\<close> is
  \<^verbatim>\<open>ModuleSummaryIndex\<close>. A call that can fail gives \<open>Inl\<close> the error's message. The
  three calls that work in the \<^verbatim>\<open>LLVMContext\<close> also give the diagnostics they report to
  the context's handler, in order. \<open>openOutput\<close> is the constructor of
  \<^verbatim>\<open>ToolOutputFile\<close>: \<open>Some\<close> the message of its error code when it fails.
  \<open>HTMLWriter_print M annotated preserve\<close> gives the body text and the CSS text.
\<close>

record ('bm, 'm, 'ix) library =
  getFileOrSTDIN :: "string \<Rightarrow> string + string"
  getBitcodeFileContents :: "string \<Rightarrow> string + 'bm list"
  getLazyModule :: "'bm \<Rightarrow> bool \<Rightarrow> bool \<Rightarrow> DiagnosticInfo list \<times> (string + 'm)"
  materializeMetadata :: "'m \<Rightarrow> DiagnosticInfo list \<times> (string + 'm)"
  materializeAll :: "'m \<Rightarrow> DiagnosticInfo list \<times> (string + 'm)"
  getLTOInfo :: "'bm \<Rightarrow> string + bool"
  getSummary :: "'bm \<Rightarrow> string + 'ix"
  openOutput :: "string \<Rightarrow> string option"
  HTMLWriter_print :: "'m \<Rightarrow> bool \<Rightarrow> bool \<Rightarrow> string \<times> string"
  Index_print :: "'ix \<Rightarrow> string"

text \<open>
  What a run leaves behind: the error stream, the calls made (module calls with the
  module's index in its container), and the output files kept, with their text.
\<close>

datatype event =
    EvReadInput string
  | EvDecodeContainer string
  | EvGetLazyModule nat
  | EvMaterializeMetadata nat
  | EvMaterializeAll nat
  | EvGetLTOInfo nat
  | EvGetSummary nat
  | EvOpenOutput string
  | EvPrintModule nat
  | EvPrintIndex nat
  | EvKeep string

record world =
  errs :: "err_item list"
  trace :: "event list"
  outputs :: "(string \<times> string) list"

definition log_event :: "event \<Rightarrow> world \<Rightarrow> world" where
  "log_event e w = w\<lparr>trace := trace w @ [e]\<rparr>"

definition write_errs :: "err_item list \<Rightarrow> world \<Rightarrow> world" where
  "write_errs t w = w\<lparr>errs := errs w @ t\<rparr>"

text \<open>
  A step of the driver takes the world and gives the new world with \<open>Inl\<close> the exit
  status, when the process ends there, or \<open>Inr\<close> the step's value.
\<close>

type_synonym 'a step = "world \<Rightarrow> world \<times> (int + 'a)"

definition and_then :: "'a step \<Rightarrow> ('a \<Rightarrow> 'b step) \<Rightarrow> 'b step" where
  "and_then m f w = (case m w of (w1, Inl rc) \<Rightarrow> (w1, Inl rc) | (w1, Inr x) \<Rightarrow> f x w1)"

definition done_with :: "'a \<Rightarrow> 'a step" where
  "done_with x w = (w, Inr x)"

text \<open>
  \<^verbatim>\<open>ExitOnErr\<close>: on an error, the banner and the error's message go to the error stream
  and the process exits with status 1.
\<close>

definition ExitOnErr :: "options \<Rightarrow> string + 'a \<Rightarrow> 'a step" where
  "ExitOnErr opts r w =
     (case r of
        Inl msg \<Rightarrow> (write_errs (plain (argv0 opts @ '': error: '' @ msg @ [CHR 0x0A])) w, Inl 1)
      | Inr x \<Rightarrow> (w, Inr x))"

text \<open>The diagnostics of a library call reach the handler one by one; an error ends the process.\<close>

fun deliver :: "options \<Rightarrow> DiagnosticInfo list \<Rightarrow> unit step" where
  "deliver opts [] w = (w, Inr ())"
| "deliver opts (DI # DIs) w =
     (case handleDiagnostics (argv0 opts) DI (errs w) of
        (OS, Exit rc) \<Rightarrow> (w\<lparr>errs := OS\<rparr>, Inl rc)
      | (OS, Return b) \<Rightarrow> deliver opts DIs (w\<lparr>errs := OS\<rparr>))"

definition context_call :: "options \<Rightarrow> event \<Rightarrow> DiagnosticInfo list \<times> (string + 'a) \<Rightarrow> 'a step" where
  "context_call opts e r w =
     and_then (deliver opts (fst r)) (\<lambda>u. ExitOnErr opts (snd r)) (log_event e w)"

text \<open>Lines 214-221: the module, when it is loaded at all.\<close>

definition load_module :: "options \<Rightarrow> ('bm, 'm, 'ix) library \<Rightarrow> nat \<Rightarrow> 'bm \<Rightarrow> 'm option step" where
  "load_module opts lib I MB =
     (if \<not> PrintThinLTOIndexOnly opts then
        and_then (context_call opts (EvGetLazyModule I)
                    (getLazyModule lib MB (MaterializeMetadata opts) (SetImporting opts)))
          (\<lambda>M. if MaterializeMetadata opts
                then and_then (context_call opts (EvMaterializeMetadata I) (materializeMetadata lib M))
                       (\<lambda>M1. done_with (Some M1))
                else and_then (context_call opts (EvMaterializeAll I) (materializeAll lib M))
                       (\<lambda>M1. done_with (Some M1)))
      else done_with None)"

text \<open>Lines 223-226: the summary index, when the module has one.\<close>

definition load_index :: "options \<Rightarrow> ('bm, 'm, 'ix) library \<Rightarrow> nat \<Rightarrow> 'bm \<Rightarrow> 'ix option step" where
  "load_index opts lib I MB =
     and_then (\<lambda>w. ExitOnErr opts (getLTOInfo lib MB) (log_event (EvGetLTOInfo I) w))
       (\<lambda>HasSummary.
          if HasSummary
          then and_then (\<lambda>w. ExitOnErr opts (getSummary lib MB) (log_event (EvGetSummary I) w))
                 (\<lambda>Index. done_with (Some Index))
          else done_with None)"

text \<open>
  Lines 248-277: the output file is opened, the module is printed into the two string
  streams and the index straight into the file, the CSS is inlined and the file is kept.
\<close>

definition write_output ::
  "options \<Rightarrow> ('bm, 'm, 'ix) library \<Rightarrow> nat \<Rightarrow> string \<Rightarrow> 'm option \<Rightarrow> 'ix option \<Rightarrow> unit step" where
  "write_output opts lib I FinalFilename M Index w =
     (let w1 = log_event (EvOpenOutput FinalFilename) w in
      case openOutput lib FinalFilename of
        Some EC \<Rightarrow> (write_errs (plain (EC @ [CHR 0x0A])) w1, Inl 1)
      | None \<Rightarrow>
          (let printed =
                 (if \<not> DontPrint opts then
                    (case M of
                       Some Mod \<Rightarrow>
                         (HTMLWriter_print lib Mod (ShowAnnotations opts)
                            (PreserveAssemblyUseListOrder opts),
                          log_event (EvPrintModule I) w1)
                     | None \<Rightarrow> (([], []), w1))
                  else (([], []), w1));
               OutString = fst (fst printed);
               CSSOutString = snd (fst printed);
               w2 = snd printed;
               indexed =
                 (if \<not> DontPrint opts then
                    (case Index of
                       Some Ix \<Rightarrow> (Index_print lib Ix, log_event (EvPrintIndex I) w2)
                     | None \<Rightarrow> ([], w2))
                  else ([], w2));
               os = inlineCSS (fst indexed) OutString CSSOutString;
               w3 = log_event (EvKeep FinalFilename) (snd indexed)
           in (w3\<lparr>outputs := outputs w3 @ [(FinalFilename, os)]\<rparr>, Inr ())))"

text \<open>One turn of the loop over the modules of a container (lines 210-278).\<close>

definition process_module ::
  "options \<Rightarrow> ('bm, 'm, 'ix) library \<Rightarrow> string \<Rightarrow> nat \<Rightarrow> nat \<Rightarrow> 'bm \<Rightarrow> unit step" where
  "process_module opts lib InputFilename N I MB =
     and_then (load_module opts lib I MB)
       (\<lambda>M. and_then (load_index opts lib I MB)
          (\<lambda>Index. write_output opts lib I
             (resolveFinalFilename (OutputFilename opts) (DontPrint opts) InputFilename N I)
             M Index))"

text \<open>The loop over the modules: \<open>I\<close> is the index of the first module of the list.\<close>

fun process_modules ::
  "options \<Rightarrow> ('bm, 'm, 'ix) library \<Rightarrow> string \<Rightarrow> nat \<Rightarrow> nat \<Rightarrow> 'bm list \<Rightarrow> unit step" where
  "process_modules opts lib InputFilename N I [] = done_with ()"
| "process_modules opts lib InputFilename N I (MB # MBs) =
     and_then (process_module opts lib InputFilename N I MB)
       (\<lambda>u. process_modules opts lib InputFilename N (Suc I) MBs)"

text \<open>One turn of the loop over the input files (lines 194-279).\<close>

definition multi_module_warning :: "err_item list" where
  "multi_module_warning =
     plain (''only single module bitcode files can be written to stdout'' @ [CHR 0x0A])"

definition process_file :: "options \<Rightarrow> ('bm, 'm, 'ix) library \<Rightarrow> string \<Rightarrow> unit step" where
  "process_file opts lib InputFilename w =
     (let w1 = log_event (EvReadInput InputFilename) w in
      case getFileOrSTDIN lib InputFilename of
        Inl EC \<Rightarrow>
          (write_errs (colored HC_Error ''error: ''
                         @ plain (InputFilename @ '': '' @ EC @ [CHR 0x0A])) w1, Inl 1)
      | Inr MB \<Rightarrow>
          and_then (\<lambda>w. ExitOnErr opts (getBitcodeFileContents lib MB)
                           (log_event (EvDecodeContainer InputFilename) w))
            (\<lambda>Mods.
               (let N = length Mods in
                and_then
                  (\<lambda>w. (if OutputFilename opts = ''-'' \<and> N > 1
                         then write_errs multi_module_warning w else w, Inr ()))
                  (\<lambda>u. process_modules opts lib InputFilename N 0 Mods)))
            w1)"

fun process_files :: "options \<Rightarrow> ('bm, 'm, 'ix) library \<Rightarrow> string list \<Rightarrow> unit step" where
  "process_files opts lib [] = done_with ()"
| "process_files opts lib (InputFilename # rest) =
     and_then (process_file opts lib InputFilename) (\<lambda>u. process_files opts lib rest)"

definition initial_world :: world where
  "initial_world = \<lparr>errs = [], trace = [], outputs = []\<rparr>"

definition output_name_error :: "err_item list" where
  "output_name_error =
     plain (''error: output file name cannot be set for multiple input files'' @ [CHR 0x0A])"

text \<open>\<^verbatim>\<open>main\<close>: the world at the end of the process and its exit status.\<close>

definition main :: "options \<Rightarrow> ('bm, 'm, 'ix) library \<Rightarrow> world \<times> int" where
  "main opts lib =
     (if length (InputFilenames opts) < 1 then
        (case process_files opts lib [''-''] initial_world of
           (w, Inl rc) \<Rightarrow> (w, rc) | (w, Inr u) \<Rightarrow> (w, 0))
      else if length (InputFilenames opts) > 1 \<and> OutputFilename opts \<noteq> [] then
        (write_errs output_name_error initial_world, 1)
      else
        (case process_files opts lib (InputFilenames opts) initial_world of
           (w, Inl rc) \<Rightarrow> (w, rc) | (w, Inr u) \<Rightarrow> (w, 0)))"

text \<open>
  The calls that load, materialize or print a module, and the worlds in which none was
  made.
\<close>

definition module_event :: "event \<Rightarrow> bool" where
  "module_event e =
     (case e of
        EvGetLazyModule I \<Rightarrow> True
      | EvMaterializeMetadata I \<Rightarrow> True
      | EvMaterializeAll I \<Rightarrow> True
      | EvPrintModule I \<Rightarrow> True
      | _ \<Rightarrow> False)"

definition no_module_events :: "world \<Rightarrow> bool" where
  "no_module_events w = (\<forall>e \<in> set (trace w). \<not> module_event e)"

text \<open>A step keeps a property of the world: it holds after the step when it held before.\<close>

definition keeps :: "(world \<Rightarrow> bool) \<Rightarrow> 'a step \<Rightarrow> bool" where
  "keeps P m = (\<forall>w. P w \<longrightarrow> P (fst (m w)))"

text \<open>
  To state what a run with \<^verbatim>\<open>--print-thinlto-index-only\<close> writes. The input files
  \<^verbatim>\<open>main\<close> works on are the positional ones, or standard input when there is none
  (lines 185-186).
\<close>

definition input_files :: "options \<Rightarrow> string list" where
  "input_files opts = (if InputFilenames opts = [] then [''-''] else InputFilenames opts)"

text \<open>
  What the index printer writes for a module (lines 223-226 and 270-271): the rendered
  summary index when the module has one, nothing when it has none; \<open>None\<close> when reading
  the module's LTO information or its summary fails.
\<close>

definition index_text :: "('bm, 'm, 'ix) library \<Rightarrow> 'bm \<Rightarrow> string option" where
  "index_text lib MB =
     (case getLTOInfo lib MB of
        Inl e \<Rightarrow> None
      | Inr HasSummary \<Rightarrow>
          if HasSummary
          then (case getSummary lib MB of
                  Inl e \<Rightarrow> None
                | Inr Index \<Rightarrow> Some (Index_print lib Index))
          else Some [])"

text \<open>
  The outputs of the modules of one container, in order: each under its resolved name,
  with the text \<open>rendered\<close> gives for the module.
\<close>

definition index_outputs ::
  "options \<Rightarrow> ('bm \<Rightarrow> string) \<Rightarrow> string \<Rightarrow> 'bm list \<Rightarrow> (string \<times> string) list" where
  "index_outputs opts rendered inName Mods =
     map (\<lambda>(J, MB). (resolveFinalFilename (OutputFilename opts) (DontPrint opts) inName
                        (length Mods) J, rendered MB))
         (enumerate 0 Mods)"

text \<open>
  An input is processed without error in such a run: it is read, it decodes to the
  container \<open>mods inName\<close>, the index text of each module is \<open>rendered\<close> of it, and the
  output file of each module is opened.
\<close>

definition readable_container ::
  "options \<Rightarrow> ('bm, 'm, 'ix) library \<Rightarrow> (string \<Rightarrow> 'bm list) \<Rightarrow> ('bm \<Rightarrow> string) \<Rightarrow> string \<Rightarrow> bool" where
  "readable_container opts lib mods rendered inName =
     ((\<exists>buf. getFileOrSTDIN lib inName = Inr buf \<and>
             getBitcodeFileContents lib buf = Inr (mods inName)) \<and>
      (\<forall>MB \<in> set (mods inName). index_text lib MB = Some (rendered MB)) \<and>
      (\<forall>J < length (mods inName).
         openOutput lib (resolveFinalFilename (OutputFilename opts) (DontPrint opts) inName
                           (length (mods inName)) J) = None))"

text \<open>The outputs kept so far begin with \<open>base\<close>.\<close>

definition outputs_from :: "(string \<times> string) list \<Rightarrow> world \<Rightarrow> bool" where
  "outputs_from base w = prefix base (outputs w)"

text \<open>
  A library to run the driver on: every file can be read but \<open>missing.bc\<close>, the container
  \<open>one.bc\<close> holds one module and every other container two, each module has a summary
  index, and every output file can be opened.
\<close>

definition example_library :: "(nat, string, string) library" where
  "example_library =
     \<lparr>getFileOrSTDIN = (\<lambda>name. if name = ''missing.bc'' then Inl ''No such file or directory''
                               else Inr name),
      getBitcodeFileContents = (\<lambda>buf. if buf = ''one.bc'' then Inr [0] else Inr [0, 1]),
      getLazyModule = (\<lambda>MB mm si. ([], Inr (''define void @f'' @ to_string MB @ ''()''))),
      materializeMetadata = (\<lambda>M. ([], Inr M)),
      materializeAll = (\<lambda>M. ([], Inr M)),
      getLTOInfo = (\<lambda>MB. Inr True),
      getSummary = (\<lambda>MB. Inr (''^0 = module: m'' @ to_string MB)),
      openOutput = (\<lambda>name. None),
      HTMLWriter_print = (\<lambda>M a p. (''<link rel=stylesheet href=x.css>'' @ [CHR 0x0A] @ M, ''p {}'')),
      Index_print = (\<lambda>Ix. Ix @ [CHR 0x0A])\<rparr>"

definition example_options :: options where
  "example_options =
     \<lparr>argv0 = ''llvm-html'', InputFilenames = [''one.bc''], OutputFilename = [],
      Force = False, DontPrint = False, SetImporting = False, ShowAnnotations = False,
      PreserveAssemblyUseListOrder = False, MaterializeMetadata = False,
      PrintThinLTOIndexOnly = False\<rparr>"

subsection \<open>Facts about the decimal rendering\<close>

lemma digit_char_inj: "a < 10 \<Longrightarrow> b < 10 \<Longrightarrow> digit_char a = digit_char b \<Longrightarrow> a = b"
proof -
  assume a: "a < 10" and b: "b < 10" and e: "digit_char a = digit_char b"
  have d: "distinct ''0123456789''" by simp
  from a b e show "a = b"
    unfolding digit_char_def by (subst (asm) nth_eq_iff_index_eq [OF d]) simp_all
qed

lemma to_string_nonempty: "to_string n \<noteq> []"
  by (subst to_string.simps) simp

lemma to_string_inj: "to_string a = to_string b \<Longrightarrow> a = b"
proof (induction a arbitrary: b rule: to_string.induct)
  case (1 n)
  show ?case
  proof (cases "n < 10")
    case small: True
    show ?thesis
    proof (cases "b < 10")
      case True
      with small "1.prems" show ?thesis
        by (simp add: to_string.simps [of n] to_string.simps [of b] digit_char_inj)
    next
      case False
      with small "1.prems" to_string_nonempty [of "b div 10"] show ?thesis
        by (simp add: to_string.simps [of n] to_string.simps [of b])
    qed
  next
    case big: False
    show ?thesis
    proof (cases "b < 10")
      case True
      with big "1.prems" to_string_nonempty [of "n div 10"] show ?thesis
        by (simp add: to_string.simps [of n] to_string.simps [of b])
    next
      case False
      with big "1.prems" have e1: "to_string (n div 10) = to_string (b div 10)"
        and e2: "digit_char (n mod 10) = digit_char (b mod 10)"
        by (simp_all add: to_string.simps [of n] to_string.simps [of b])
      from "1.IH" [OF big e1] have d: "n div 10 = b div 10" .
      from e2 have m: "n mod 10 = b mod 10" by (simp add: digit_char_inj)
      from d m show ?thesis by (metis div_mult_mod_eq)
    qed
  qed
qed

lemma to_string_small: "n < 10 \<Longrightarrow> to_string n = [digit_char n]"
  by (subst to_string.simps) simp

subsection \<open>Output file names\<close>

lemma resolve_explicit:
  "\<not> disabled \<Longrightarrow> outName \<noteq> [] \<Longrightarrow> N > 1 \<Longrightarrow>
   resolveFinalFilename outName disabled inName N I = outName @ ''.'' @ to_string I"
  by (simp add: resolveFinalFilename_def)

lemma resolve_inferred:
  "\<not> disabled \<Longrightarrow> outName = [] \<Longrightarrow> inName \<noteq> ''-'' \<Longrightarrow> N > 1 \<Longrightarrow>
   resolveFinalFilename outName disabled inName N I =
     (if endswith inName ''.bc'' then drop_back 3 inName else inName)
       @ ''.'' @ to_string I @ ''.html''"
  by (simp add: resolveFinalFilename_def Let_def)

text \<open>
  C6 as stated fails: with \<^verbatim>\<open>--disable-output\<close> the name is \<open>''-''\<close> whatever the input
  is called (line 230: "Just use stdout").
\<close>

theorem C6_disable_output_counterexample:
  "''a.bc'' \<noteq> ''-'' \<and> endswith ''a.bc'' ''.bc'' \<and>
   resolveFinalFilename [] True ''a.bc'' 1 0 \<noteq> drop_back 3 ''a.bc'' @ ''.html''"
  by code_simp

text \<open>
  C6 (amended): for an input file that is not the standard-input sentinel, holds exactly
  one module, with no explicit output name and with output not disabled, the output name
  is the input name with a trailing \<open>.bc\<close> stripped (if present) and \<open>.html\<close> appended.
\<close>

theorem C6_derived_name:
  assumes "inName \<noteq> ''-''" and "outName = []" and "\<not> disabled"
  shows "resolveFinalFilename outName disabled inName 1 0 =
           (if endswith inName ''.bc'' then drop_back 3 inName else inName)
             @ ''.html''"
  using assms by (simp add: resolveFinalFilename_def Let_def)

theorem C6_derived_name_witness:
  "resolveFinalFilename [] False ''dir/a.bc'' 1 0 = ''dir/a.html'' \<and>
   resolveFinalFilename [] False ''b.ll'' 1 0 = ''b.ll.html''"
proof -
  have e: "endswith ''dir/a.bc'' ''.bc''" "\<not> endswith ''b.ll'' ''.bc''"
    "drop_back 3 ''dir/a.bc'' = ''dir/a''"
    by code_simp+
  show ?thesis
    using C6_derived_name [of "''dir/a.bc''" "[]" False] C6_derived_name [of "''b.ll''" "[]" False] e
    by simp
qed

text \<open>
  C2 as stated fails: a container read from the standard-input sentinel with no \<^verbatim>\<open>-o\<close>
  gives every module the name \<open>''-''\<close> (line 234), with no index.
\<close>

theorem C2_stdin_counterexample:
  "(1::nat) < 2 \<and> (0::nat) \<noteq> 1 \<and>
   resolveFinalFilename [] False ''-'' 2 0 = resolveFinalFilename [] False ''-'' 2 1 \<and>
   \<not> sublist (''.'' @ to_string 0) (resolveFinalFilename [] False ''-'' 2 0)"
  by code_simp

text \<open>
  C2 (amended): for a container with \<open>N > 1\<close> modules, when output is not disabled and the
  name is not the one inferred from the standard-input sentinel (an explicit \<^verbatim>\<open>-o\<close> is
  given, or the input is not \<open>''-''\<close>), the names of two different module indices differ,
  and the name of module \<open>I\<close> carries \<open>.I\<close>: at its end when the name is explicit, just
  before \<open>.html\<close> when it is inferred.
\<close>

theorem C2_names_distinct:
  assumes "N > 1" and "I \<noteq> J" and "\<not> disabled"
    and "outName \<noteq> [] \<or> inName \<noteq> ''-''"
  shows "resolveFinalFilename outName disabled inName N I \<noteq>
         resolveFinalFilename outName disabled inName N J
       \<and> sublist (''.'' @ to_string I) (resolveFinalFilename outName disabled inName N I)
       \<and> (if outName \<noteq> []
          then suffix (''.'' @ to_string I) (resolveFinalFilename outName disabled inName N I)
          else suffix (''.'' @ to_string I @ ''.html'')
                 (resolveFinalFilename outName disabled inName N I))"
proof (cases "outName = []")
  case False
  have ne: "to_string I \<noteq> to_string J"
    using assms(2) to_string_inj by blast
  have nI: "resolveFinalFilename outName disabled inName N I = outName @ ''.'' @ to_string I"
    using resolve_explicit [OF assms(3) False assms(1)] .
  have nJ: "resolveFinalFilename outName disabled inName N J = outName @ ''.'' @ to_string J"
    using resolve_explicit [OF assms(3) False assms(1)] .
  have s: "suffix (''.'' @ to_string I) (outName @ ''.'' @ to_string I)"
    by (rule suffixI) simp
  from ne nI nJ s False show ?thesis
    by (simp add: suffix_imp_sublist)
next
  case True
  with assms(4) have inp: "inName \<noteq> ''-''" by simp
  define stem where "stem = (if endswith inName ''.bc'' then drop_back 3 inName else inName)"
  have ne: "to_string I \<noteq> to_string J"
    using assms(2) to_string_inj by blast
  have nI: "resolveFinalFilename outName disabled inName N I = stem @ ''.'' @ to_string I @ ''.html''"
    using resolve_inferred [OF assms(3) True inp assms(1)] by (simp add: stem_def)
  have nJ: "resolveFinalFilename outName disabled inName N J = stem @ ''.'' @ to_string J @ ''.html''"
    using resolve_inferred [OF assms(3) True inp assms(1)] by (simp add: stem_def)
  have s: "suffix (''.'' @ to_string I @ ''.html'') (stem @ ''.'' @ to_string I @ ''.html'')"
    by (rule suffixI) simp
  have sl: "sublist (''.'' @ to_string I) (stem @ (''.'' @ to_string I) @ ''.html'')"
    by (rule sublist_appendI)
  from ne nI nJ s sl True show ?thesis
    by simp
qed

theorem C2_names_distinct_witness:
  "resolveFinalFilename ''out'' False ''in.bc'' 3 0 = ''out.0'' \<and>
   resolveFinalFilename ''out'' False ''in.bc'' 3 2 = ''out.2'' \<and>
   resolveFinalFilename [] False ''in.bc'' 3 0 = ''in.0.html'' \<and>
   resolveFinalFilename [] False ''in.bc'' 3 2 = ''in.2.html'' \<and>
   resolveFinalFilename ''out'' False ''in.bc'' 3 0 \<noteq> resolveFinalFilename ''out'' False ''in.bc'' 3 2 \<and>
   resolveFinalFilename [] False ''in.bc'' 3 0 \<noteq> resolveFinalFilename [] False ''in.bc'' 3 2"
proof -
  have e: "resolveFinalFilename ''out'' False ''in.bc'' 3 0 = ''out.0''"
    "resolveFinalFilename ''out'' False ''in.bc'' 3 2 = ''out.2''"
    "resolveFinalFilename [] False ''in.bc'' 3 0 = ''in.0.html''"
    "resolveFinalFilename [] False ''in.bc'' 3 2 = ''in.2.html''"
    by code_simp+
  show ?thesis
    using C2_names_distinct [of 3 0 2 False "''out''" "''in.bc''"]
          C2_names_distinct [of 3 0 2 False "[]" "''in.bc''"] e
    by simp
qed

subsection \<open>Debug locations\<close>

lemma printDebugLoc_finite:
  "finite_chain MD a \<Longrightarrow> \<exists>r. pad_count r = 0 \<and> (\<forall>OS. printDebugLoc MD a OS = Some (OS @ r))"
proof (induction rule: finite_chain.induct)
  case (chain_end a)
  then show ?case
    by (subst printDebugLoc.simps) (auto simp: Let_def pad_count_def ftext_def intro!: exI [of _ "ftext (to_string (getLine (MD a))) @ ftext '':'' @ ftext (to_string (getCol (MD a)))"])
next
  case (chain_step a b)
  then obtain r where r: "pad_count r = 0" "\<And>OS. printDebugLoc MD b OS = Some (OS @ r)" by blast
  let ?h = "ftext (to_string (getLine (MD a))) @ ftext '':'' @ ftext (to_string (getCol (MD a))) @ ftext ''@''"
  have "printDebugLoc MD a OS = Some (OS @ ?h @ r)" for OS
    using chain_step.hyps(1) by (subst printDebugLoc.simps) (simp add: Let_def r(2))
  moreover have "pad_count (?h @ r) = 0" using r(1) by (simp add: pad_count_def ftext_def)
  ultimately show ?case by blast
qed

lemma printDebugLoc_loop:
  assumes self: "getInlinedAt (MD a) = Some a"
  shows "printDebugLoc MD a OS = None"
proof (rule ccontr)
  assume "printDebugLoc MD a OS \<noteq> None"
  then obtain y where y: "printDebugLoc MD a OS = Some y" by auto
  have "M' = MD \<longrightarrow> b \<noteq> a" if t: "printDebugLoc M' b OS' = Some y'" for M' b OS' y'
  proof (rule printDebugLoc.raw_induct [where P = "\<lambda>M d os z. M = MD \<longrightarrow> d \<noteq> a", OF _ t])
    fix f :: "metadata \<Rightarrow> nat \<Rightarrow> fitem list \<Rightarrow> fitem list option"
      and M d os z
    assume IH: "\<And>M d os z. f M d os = Some z \<Longrightarrow> M = MD \<longrightarrow> d \<noteq> a"
      and body: "(let OS1 = os @ ftext (to_string (getLine (M d))) @ ftext '':''
                      @ ftext (to_string (getCol (M d)))
                  in case getInlinedAt (M d) of
                       None \<Rightarrow> Some OS1
                     | Some IDL \<Rightarrow> f M IDL (OS1 @ ftext ''@'')) = Some z"
    show "M = MD \<longrightarrow> d \<noteq> a"
    proof (intro impI notI)
      assume "M = MD" "d = a"
      with body self have "f MD a (os @ ftext (to_string (getLine (MD a))) @ ftext '':''
                   @ ftext (to_string (getCol (MD a))) @ ftext ''@'') = Some z"
        by (simp add: Let_def)
      from IH [OF this] show False by simp
    qed
  qed
  from this [OF y] show False by simp
qed

lemma example_chain: "finite_chain example_metadata 0"
proof -
  have "finite_chain example_metadata 1"
    by (rule chain_end) (simp add: example_metadata_def)
  then show ?thesis
    by (rule chain_step [rotated]) (simp add: example_metadata_def)
qed

text \<open>
  C9: for a debug location whose inlined-at chain is finite, \<^verbatim>\<open>printDebugLoc\<close> returns,
  having written \<open>line:col\<close>, followed, when the location has an inlined-at parent, by \<open>@\<close>
  and what \<^verbatim>\<open>printDebugLoc\<close> writes for the parent.
\<close>

theorem C9_printDebugLoc:
  assumes "finite_chain MD DL"
  shows "\<exists>r. printDebugLoc MD DL OS = Some (OS @ r) \<and>
           (case getInlinedAt (MD DL) of
              None \<Rightarrow> r = ftext (to_string (getLine (MD DL))) @ ftext '':'' @ ftext (to_string (getCol (MD DL)))
            | Some IDL \<Rightarrow>
                \<exists>r'. printDebugLoc MD IDL [] = Some r' \<and>
                  r = ftext (to_string (getLine (MD DL))) @ ftext '':'' @ ftext (to_string (getCol (MD DL)))
                        @ ftext ''@'' @ r')"
proof (cases "getInlinedAt (MD DL)")
  case None
  then show ?thesis by (subst printDebugLoc.simps) (simp add: Let_def)
next
  case (Some IDL)
  with assms have "finite_chain MD IDL" by (auto elim: finite_chain.cases)
  from printDebugLoc_finite [OF this] obtain r' where r': "\<And>OS. printDebugLoc MD IDL OS = Some (OS @ r')"
    by blast
  from r' [of "[]"] have e: "printDebugLoc MD IDL [] = Some r'" by simp
  show ?thesis
    using Some e by (subst printDebugLoc.simps) (simp add: Let_def r')
qed

theorem C9_printDebugLoc_witness:
  "finite_chain example_metadata 0 \<and>
   printDebugLoc example_metadata 1 [] = Some (ftext ''30:40'') \<and>
   printDebugLoc example_metadata 0 (ftext ''at '') = Some (ftext ''at 3:4@30:40'')"
proof -
  have e: "printDebugLoc example_metadata 1 [] = Some (ftext ''30:40'')"
    "getInlinedAt (example_metadata 0) = Some 1"
    "ftext (to_string (getLine (example_metadata 0))) @ ftext '':''
       @ ftext (to_string (getCol (example_metadata 0))) @ ftext ''@'' @ ftext ''30:40''
     = ftext ''3:4@30:40''"
    "ftext ''at '' @ ftext ''3:4@30:40'' = ftext ''at 3:4@30:40''"
    by code_simp+
  from C9_printDebugLoc [OF example_chain, of "ftext ''at ''"] e example_chain
  show ?thesis by auto
qed

subsection \<open>The annotation writer\<close>

lemma ftext_simps:
  "ftext [] = []" "ftext (c # cs) = FChar c # ftext cs" "ftext (a @ b) = ftext a @ ftext b"
  by (simp_all add: ftext_def)

lemma pad_count_simps:
  "pad_count [] = 0" "pad_count (FChar c # xs) = pad_count xs"
  "pad_count (FPad n # xs) = Suc (pad_count xs)"
  "pad_count (xs @ ys) = pad_count xs + pad_count ys"
  "pad_count (ftext s) = 0"
  by (simp_all add: pad_count_def ftext_def)

lemma pad_count_uses: "pad_count (uses_fragment V) = 0"
  by (simp add: uses_fragment_def pad_count_simps)

lemma pad_count_variable: "pad_count (debug_variable_fragment V) = 0"
  by (simp add: debug_variable_fragment_def pad_count_simps
      split: option.splits InstKind.splits)

lemma pad_count_comment:
  "pad_count frags = 0 \<Longrightarrow> pad_count (comment frags) \<le> 1"
  by (simp add: comment_def pad_count_simps)

lemma print_uses_eq:
  "print_uses V (OS, False) = (OS @ comment (uses_fragment V), \<not> isVoidTy V)"
  by (simp add: print_uses_def comment_def uses_fragment_def ftext_simps)

lemma uses_fragment_empty: "(uses_fragment V = []) = isVoidTy V"
  by (simp add: uses_fragment_def ftext_simps)

lemma print_debug_line_none:
  "getDebugLoc I = None \<Longrightarrow> print_debug_line MD I st = Some st"
  by (simp add: print_debug_line_def split: prod.splits)

lemma print_debug_line_some:
  assumes "getDebugLoc I = Some DL" and "\<And>OS. printDebugLoc MD DL OS = Some (OS @ r)"
  shows "print_debug_line MD I (OS @ comment u, u \<noteq> []) =
           Some (OS @ comment (u @ ftext '' [debug line = '' @ r @ ftext '']''), True)"
  using assms by (simp add: print_debug_line_def Let_def comment_def ftext_simps)

lemma print_debug_variable_eq:
  "asInstruction V = Some I \<Longrightarrow>
   print_debug_variable I (OS @ comment u, u \<noteq> []) =
     OS @ comment (u @ debug_variable_fragment V)"
  by (simp add: print_debug_variable_def debug_variable_fragment_def comment_def ftext_simps
      split: InstKind.splits)

text \<open>
  C4 as stated fails: for a non-void instruction with a debug location the semicolon is
  written once, before the use count; the debug-line fragment follows as
  \<open> [debug line = ...]\<close> with no semicolon of its own.
\<close>

theorem C4_semicolon_counterexample:
  "printInfoComment example_metadata example_value [] =
     Some ([FPad 50] @ ftext ''; [#uses=12 type=i32] [debug line = 3:4@30:40]'') \<and>
   \<not> sublist (ftext ''; [debug line = '')
       ([FPad 50] @ ftext ''; [#uses=12 type=i32] [debug line = 3:4@30:40]'')"
  by code_simp

text \<open>
  C4 (amended): for every value passed to \<^verbatim>\<open>printInfoComment\<close> (the chain of its debug
  location, if it has one, being finite), what is written is the comment made of three
  fragments in this order: \<open> [#uses=N type=T]\<close> if the value's type is not void,
  \<open> [debug line = L]\<close> if it is an instruction with a debug location, and
  \<open> [debug variable = name]\<close> if it is a debug-declare or debug-value intrinsic. When
  there is no fragment nothing is written; otherwise the output is padded to column 50
  and one semicolon is written, both once and before the first fragment, so that
  \<^verbatim>\<open>PadToColumn\<close> is called at most once however many fragments follow.
\<close>

theorem C4_printInfoComment:
  assumes "\<And>I DL. asInstruction V = Some I \<Longrightarrow> getDebugLoc I = Some DL \<Longrightarrow> finite_chain MD DL"
  shows "\<exists>line. debug_line_fragment MD V = Some line \<and>
           printInfoComment MD V OS =
             Some (OS @ comment (uses_fragment V @ line @ debug_variable_fragment V)) \<and>
           pad_count (comment (uses_fragment V @ line @ debug_variable_fragment V)) \<le> 1"
proof (cases "asInstruction V")
  case None
  then have "debug_line_fragment MD V = Some []" "debug_variable_fragment V = []"
    by (simp_all add: debug_line_fragment_def debug_variable_fragment_def)
  moreover have "printInfoComment MD V OS = Some (OS @ comment (uses_fragment V))"
    using None by (simp add: printInfoComment_def Let_def print_uses_eq)
  moreover have "pad_count (comment (uses_fragment V)) \<le> 1"
    by (rule pad_count_comment) (rule pad_count_uses)
  ultimately show ?thesis by simp
next
  case (Some I)
  note inst = Some
  have st1: "print_uses V (OS, False) = (OS @ comment (uses_fragment V), uses_fragment V \<noteq> [])"
    by (simp add: print_uses_eq uses_fragment_empty)
  show ?thesis
  proof (cases "getDebugLoc I")
    case None
    have l: "debug_line_fragment MD V = Some []"
      using inst None by (simp add: debug_line_fragment_def)
    have p: "printInfoComment MD V OS =
               Some (OS @ comment (uses_fragment V @ debug_variable_fragment V))"
      using inst
      by (simp add: printInfoComment_def Let_def st1 print_debug_line_none [OF None]
          print_debug_variable_eq [OF inst])
    have "pad_count (comment (uses_fragment V @ debug_variable_fragment V)) \<le> 1"
      by (rule pad_count_comment) (simp add: pad_count_simps pad_count_uses pad_count_variable)
    with l p show ?thesis by simp
  next
    case (Some DL)
    from assms [OF inst Some] have "finite_chain MD DL" .
    from printDebugLoc_finite [OF this] obtain r where r0: "pad_count r = 0"
      and r: "\<And>OS. printDebugLoc MD DL OS = Some (OS @ r)" by blast
    from r [of "[]"] have r1: "printDebugLoc MD DL [] = Some r" by simp
    let ?line = "ftext '' [debug line = '' @ r @ ftext '']''"
    have l: "debug_line_fragment MD V = Some ?line"
      using inst Some r1 by (simp add: debug_line_fragment_def)
    have ne: "(uses_fragment V @ ?line) \<noteq> []" by (simp add: ftext_simps)
    have "print_debug_variable I (OS @ comment (uses_fragment V @ ?line), (uses_fragment V @ ?line) \<noteq> [])
            = OS @ comment ((uses_fragment V @ ?line) @ debug_variable_fragment V)"
      by (rule print_debug_variable_eq [OF inst])
    with ne have v: "print_debug_variable I (OS @ comment (uses_fragment V @ ?line), True)
            = OS @ comment (uses_fragment V @ ?line @ debug_variable_fragment V)"
      by simp
    have p: "printInfoComment MD V OS =
               Some (OS @ comment (uses_fragment V @ ?line @ debug_variable_fragment V))"
      using inst
      by (simp add: printInfoComment_def Let_def st1 print_debug_line_some [OF Some r] v)
    have "pad_count (comment (uses_fragment V @ ?line @ debug_variable_fragment V)) \<le> 1"
      by (rule pad_count_comment)
         (simp add: pad_count_simps pad_count_uses pad_count_variable r0)
    with l p show ?thesis by simp
  qed
qed

theorem C4_printInfoComment_witness:
  "printInfoComment example_metadata example_dbg_value [] =
     Some ([FPad 50] @ ftext ''; [debug line = 3:4@30:40] [debug variable = x]'') \<and>
   pad_count ([FPad 50] @ ftext ''; [debug line = 3:4@30:40] [debug variable = x]'') \<le> 1"
proof -
  have fc: "finite_chain example_metadata DL"
    if "asInstruction example_dbg_value = Some I" "getDebugLoc I = Some DL" for I DL
    using that example_chain by (auto simp: example_dbg_value_def)
  have e: "debug_line_fragment example_metadata example_dbg_value
             = Some (ftext '' [debug line = 3:4@30:40]'')"
    "uses_fragment example_dbg_value = []"
    "debug_variable_fragment example_dbg_value = ftext '' [debug variable = x]''"
    "comment (ftext '' [debug line = 3:4@30:40]'' @ ftext '' [debug variable = x]'')
       = [FPad 50] @ ftext ''; [debug line = 3:4@30:40] [debug variable = x]''"
    by code_simp+
  from C4_printInfoComment [of example_dbg_value example_metadata "[]", OF fc] e
  show ?thesis by auto
qed

subsection \<open>The diagnostic handler\<close>

text \<open>
  C5: every diagnostic is written to the error stream as the program name, \<open>: \<close>, the
  severity's label (\<open>error: \<close>, \<open>warning: \<close> and \<open>note: \<close> each in its colour, \<open>remark: \<close>
  plain), the message and a newline; the handler exits with status 1 exactly when the
  severity is error, and returns otherwise.
\<close>

theorem C5_handleDiagnostics:
  "fst (handleDiagnostics Prefix DI OS) =
     OS @ plain Prefix @ plain '': '' @ severity_label (getSeverity DI)
        @ plain (message DI) @ plain [CHR 0x0A]
   \<and> (snd (handleDiagnostics Prefix DI OS) = Exit 1) = (getSeverity DI = DS_Error)
   \<and> (snd (handleDiagnostics Prefix DI OS) = Return True) = (getSeverity DI \<noteq> DS_Error)
   \<and> severity_label DS_Error = colored HC_Error ''error: ''
   \<and> severity_label DS_Warning = colored HC_Warning ''warning: ''
   \<and> severity_label DS_Note = colored HC_Note ''note: ''
   \<and> severity_label DS_Remark = plain ''remark: ''"
  by (simp add: handleDiagnostics_def Let_def severity_label_def)

subsection \<open>The driver\<close>

text \<open>
  C3: with more than one positional input and an explicit output name, \<^verbatim>\<open>main\<close> returns 1
  having only written its error message: no input was read, no library call was made, no
  output file was opened or kept.
\<close>

theorem C3_multiple_inputs_with_output:
  assumes "length (InputFilenames opts) > 1" and "OutputFilename opts \<noteq> []"
  shows "main opts lib = (\<lparr>errs = output_name_error, trace = [], outputs = []\<rparr>, 1)"
  using assms by (cases "InputFilenames opts") (simp_all add: main_def write_errs_def initial_world_def)

theorem C3_multiple_inputs_with_output_witness:
  "main (example_options\<lparr>InputFilenames := [''one.bc'', ''two.bc''], OutputFilename := ''out.html''\<rparr>)
     example_library =
   (\<lparr>errs = plain (''error: output file name cannot be set for multiple input files'' @ [CHR 0x0A]),
     trace = [], outputs = []\<rparr>, 1)"
  using C3_multiple_inputs_with_output
          [of "example_options\<lparr>InputFilenames := [''one.bc'', ''two.bc''], OutputFilename := ''out.html''\<rparr>"
              example_library]
  by (simp add: example_options_def output_name_error_def)

lemma and_then_simps:
  "m w = (w1, Inl rc) \<Longrightarrow> and_then m f w = (w1, Inl rc)"
  "m w = (w1, Inr x) \<Longrightarrow> and_then m f w = f x w1"
  by (simp_all add: and_then_def)

lemma keepsI: "(\<And>w. P w \<Longrightarrow> P (fst (m w))) \<Longrightarrow> keeps P m"
  by (simp add: keeps_def)

lemma keepsD: "keeps P m \<Longrightarrow> P w \<Longrightarrow> P (fst (m w))"
  by (simp add: keeps_def)

lemma keeps_and_then:
  assumes "keeps P m" and "\<And>x. keeps P (f x)"
  shows "keeps P (and_then m f)"
proof (rule keepsI)
  fix w assume w: "P w"
  obtain w1 r where m: "m w = (w1, r)" by (cases "m w")
  from keepsD [OF assms(1) w] m have w1: "P w1" by simp
  show "P (fst (and_then m f w))"
  proof (cases r)
    case (Inl rc)
    with m w1 show ?thesis by (simp add: and_then_def)
  next
    case (Inr x)
    with m keepsD [OF assms(2) w1, of x] show ?thesis by (simp add: and_then_def)
  qed
qed

lemma keeps_done_with: "keeps P (done_with x)"
  by (simp add: keeps_def done_with_def)

lemma no_module_events_log:
  "\<not> module_event e \<Longrightarrow> no_module_events w \<Longrightarrow> no_module_events (log_event e w)"
  by (simp add: no_module_events_def log_event_def)

lemma no_module_events_write_errs:
  "no_module_events (write_errs t w) = no_module_events w"
  by (simp add: no_module_events_def write_errs_def)

lemma no_module_events_outputs:
  "no_module_events (w\<lparr>outputs := x\<rparr>) = no_module_events w"
  by (simp add: no_module_events_def)

lemma keeps_ExitOnErr_log:
  "\<not> module_event e \<Longrightarrow>
   keeps no_module_events (\<lambda>w. ExitOnErr opts r (log_event e w))"
  by (rule keepsI)
     (auto simp: ExitOnErr_def no_module_events_write_errs no_module_events_log split: sum.splits)

lemma load_module_thin:
  "PrintThinLTOIndexOnly opts \<Longrightarrow> load_module opts lib I MB w = (w, Inr None)"
  by (simp add: load_module_def done_with_def)

lemma keeps_load_index: "keeps no_module_events (load_index opts lib I MB)"
  unfolding load_index_def
  by (intro keeps_and_then keeps_ExitOnErr_log) (auto simp: module_event_def keeps_done_with intro!: keeps_and_then keeps_ExitOnErr_log)

lemma keeps_write_output_thin:
  "keeps no_module_events (write_output opts lib I F None Index)"
  by (rule keepsI)
     (auto simp: write_output_def Let_def no_module_events_write_errs no_module_events_outputs
        module_event_def intro!: no_module_events_log split: option.splits)

lemma keeps_process_module_thin:
  assumes "PrintThinLTOIndexOnly opts"
  shows "keeps no_module_events (process_module opts lib inName N I MB)"
proof (rule keepsI)
  fix w assume w: "no_module_events w"
  have "process_module opts lib inName N I MB w =
          and_then (load_index opts lib I MB)
            (\<lambda>Index. write_output opts lib I
               (resolveFinalFilename (OutputFilename opts) (DontPrint opts) inName N I)
               None Index) w"
    by (simp add: process_module_def and_then_simps(2) [OF load_module_thin [OF assms]])
  moreover have "keeps no_module_events
          (and_then (load_index opts lib I MB)
            (\<lambda>Index. write_output opts lib I
               (resolveFinalFilename (OutputFilename opts) (DontPrint opts) inName N I)
               None Index))"
    by (intro keeps_and_then keeps_load_index keeps_write_output_thin)
  ultimately show "no_module_events (fst (process_module opts lib inName N I MB w))"
    using w by (simp add: keepsD)
qed

lemma keeps_process_modules_thin:
  assumes "PrintThinLTOIndexOnly opts"
  shows "keeps no_module_events (process_modules opts lib inName N I Mods)"
proof (induction Mods arbitrary: I)
  case Nil
  show ?case by (simp add: keeps_done_with)
next
  case (Cons MB Mods)
  show ?case
    by (simp, intro keeps_and_then keeps_process_module_thin [OF assms] Cons.IH)
qed

lemma keeps_process_file_thin:
  assumes "PrintThinLTOIndexOnly opts"
  shows "keeps no_module_events (process_file opts lib inName)"
proof (rule keepsI)
  fix w assume w: "no_module_events w"
  let ?w1 = "log_event (EvReadInput inName) w"
  have w1: "no_module_events ?w1"
    by (rule no_module_events_log [OF _ w]) (simp add: module_event_def)
  show "no_module_events (fst (process_file opts lib inName w))"
  proof (cases "getFileOrSTDIN lib inName")
    case (Inl EC)
    with w1 show ?thesis
      by (simp add: process_file_def Let_def no_module_events_write_errs)
  next
    case (Inr buf)
    have k: "keeps no_module_events
               (and_then (\<lambda>w. ExitOnErr opts (getBitcodeFileContents lib buf)
                           (log_event (EvDecodeContainer inName) w))
                  (\<lambda>Mods.
                     (let N = length Mods in
                      and_then
                        (\<lambda>w. (if OutputFilename opts = ''-'' \<and> N > 1
                               then write_errs multi_module_warning w else w, Inr ()))
                        (\<lambda>u. process_modules opts lib inName N 0 Mods))))"
      unfolding Let_def
      apply (intro keeps_and_then keeps_ExitOnErr_log keeps_process_modules_thin [OF assms])
       apply (simp add: module_event_def)
      apply (rule keepsI)
      apply (simp add: no_module_events_write_errs)
      done
    from keepsD [OF k w1] Inr show ?thesis
      by (simp add: process_file_def Let_def)
  qed
qed

lemma keeps_process_files_thin:
  assumes "PrintThinLTOIndexOnly opts"
  shows "keeps no_module_events (process_files opts lib names)"
proof (induction names)
  case Nil
  show ?case by (simp add: keeps_done_with)
next
  case (Cons n names)
  show ?case
    by (simp, intro keeps_and_then keeps_process_file_thin [OF assms] Cons.IH)
qed

lemma no_module_events_initial: "no_module_events initial_world"
  by (simp add: no_module_events_def initial_world_def)

lemma main_thin_trace:
  assumes "PrintThinLTOIndexOnly opts"
  shows "no_module_events (fst (main opts lib))"
proof -
  have a: "no_module_events (fst (process_files opts lib names initial_world))" for names
    by (rule keepsD [OF keeps_process_files_thin [OF assms] no_module_events_initial])
  show ?thesis
    using a [of "[''-'']"] a [of "InputFilenames opts"]
    by (auto simp: main_def no_module_events_write_errs no_module_events_initial split: prod.splits sum.splits)
qed

lemma regex_replace_Nil: "regex_replace [] fmt = []"
  by (simp add: regex_replace.simps)

lemma inlineCSS_empty: "inlineCSS os [] CSS = os"
  by (simp add: inlineCSS_def regex_replace_Nil)

lemma outputs_from_log: "outputs_from base (log_event e w) = outputs_from base w"
  by (simp add: outputs_from_def log_event_def)

lemma outputs_from_write_errs: "outputs_from base (write_errs t w) = outputs_from base w"
  by (simp add: outputs_from_def write_errs_def)

lemma outputs_from_append:
  "outputs_from base w \<Longrightarrow> outputs_from base (w\<lparr>outputs := outputs w @ xs\<rparr>)"
  by (simp add: outputs_from_def prefix_def) auto

lemma keeps_outputs_ExitOnErr_log:
  "keeps (outputs_from base) (\<lambda>w. ExitOnErr opts r (log_event e w))"
  by (rule keepsI)
     (auto simp: ExitOnErr_def outputs_from_write_errs outputs_from_log split: sum.splits)

lemma keeps_outputs_load_index: "keeps (outputs_from base) (load_index opts lib I MB)"
  unfolding load_index_def
  by (intro keeps_and_then keeps_outputs_ExitOnErr_log)
     (auto simp: keeps_done_with intro!: keeps_and_then keeps_outputs_ExitOnErr_log)

lemma keeps_outputs_write_output:
  "keeps (outputs_from base) (write_output opts lib I F M Index)"
proof (rule keepsI)
  fix w assume w: "outputs_from base w"
  show "outputs_from base (fst (write_output opts lib I F M Index w))"
  proof (cases "openOutput lib F")
    case (Some EC)
    with w show ?thesis
      by (simp add: write_output_def Let_def outputs_from_write_errs outputs_from_log)
  next
    case None
    have "\<exists>w3 os. fst (write_output opts lib I F M Index w) = w3\<lparr>outputs := outputs w3 @ [(F, os)]\<rparr>
            \<and> outputs_from base w3"
      using None w
      by (auto simp: write_output_def Let_def outputs_from_log split: option.splits)
    then obtain w3 os where e: "fst (write_output opts lib I F M Index w) = w3\<lparr>outputs := outputs w3 @ [(F, os)]\<rparr>"
      and w3: "outputs_from base w3" by blast
    from outputs_from_append [OF w3] e show ?thesis by simp
  qed
qed

lemma keeps_outputs_process_module_thin:
  assumes "PrintThinLTOIndexOnly opts"
  shows "keeps (outputs_from base) (process_module opts lib inName N I MB)"
proof (rule keepsI)
  fix w assume w: "outputs_from base w"
  have "process_module opts lib inName N I MB w =
          and_then (load_index opts lib I MB)
            (\<lambda>Index. write_output opts lib I
               (resolveFinalFilename (OutputFilename opts) (DontPrint opts) inName N I)
               None Index) w"
    by (simp add: process_module_def and_then_simps(2) [OF load_module_thin [OF assms]])
  moreover have "keeps (outputs_from base)
          (and_then (load_index opts lib I MB)
            (\<lambda>Index. write_output opts lib I
               (resolveFinalFilename (OutputFilename opts) (DontPrint opts) inName N I)
               None Index))"
    by (intro keeps_and_then keeps_outputs_load_index keeps_outputs_write_output)
  ultimately show "outputs_from base (fst (process_module opts lib inName N I MB w))"
    using w by (simp add: keepsD)
qed

lemma keeps_outputs_process_modules_thin:
  assumes "PrintThinLTOIndexOnly opts"
  shows "keeps (outputs_from base) (process_modules opts lib inName N I Mods)"
proof (induction Mods arbitrary: I)
  case Nil
  show ?case by (simp add: keeps_done_with)
next
  case (Cons MB Mods)
  show ?case
    by (simp, intro keeps_and_then keeps_outputs_process_module_thin [OF assms] Cons.IH)
qed

lemma keeps_outputs_process_file_thin:
  assumes "PrintThinLTOIndexOnly opts"
  shows "keeps (outputs_from base) (process_file opts lib inName)"
proof (rule keepsI)
  fix w assume w: "outputs_from base w"
  let ?w1 = "log_event (EvReadInput inName) w"
  have w1: "outputs_from base ?w1" using w by (simp add: outputs_from_log)
  show "outputs_from base (fst (process_file opts lib inName w))"
  proof (cases "getFileOrSTDIN lib inName")
    case (Inl EC)
    with w1 show ?thesis
      by (simp add: process_file_def Let_def outputs_from_write_errs)
  next
    case (Inr buf)
    have k: "keeps (outputs_from base)
               (and_then (\<lambda>w. ExitOnErr opts (getBitcodeFileContents lib buf)
                           (log_event (EvDecodeContainer inName) w))
                  (\<lambda>Mods.
                     (let N = length Mods in
                      and_then
                        (\<lambda>w. (if OutputFilename opts = ''-'' \<and> N > 1
                               then write_errs multi_module_warning w else w, Inr ()))
                        (\<lambda>u. process_modules opts lib inName N 0 Mods))))"
      unfolding Let_def
      apply (intro keeps_and_then keeps_outputs_ExitOnErr_log keeps_outputs_process_modules_thin [OF assms])
      apply (rule keepsI)
      apply (simp add: outputs_from_write_errs)
      done
    from keepsD [OF k w1] Inr show ?thesis
      by (simp add: process_file_def Let_def)
  qed
qed

lemma keeps_outputs_process_files_thin:
  assumes "PrintThinLTOIndexOnly opts"
  shows "keeps (outputs_from base) (process_files opts lib names)"
proof (induction names)
  case Nil
  show ?case by (simp add: keeps_done_with)
next
  case (Cons n names)
  show ?case
    by (simp, intro keeps_and_then keeps_outputs_process_file_thin [OF assms] Cons.IH)
qed

lemma load_index_text:
  assumes "index_text lib MB = Some t"
  shows "\<exists>w' Index. load_index opts lib I MB w = (w', Inr Index) \<and> outputs w' = outputs w \<and>
           t = (case Index of Some Ix \<Rightarrow> Index_print lib Ix | None \<Rightarrow> [])"
proof (cases "getLTOInfo lib MB")
  case (Inl e)
  with assms show ?thesis by (simp add: index_text_def)
next
  case (Inr HasSummary)
  show ?thesis
  proof (cases HasSummary)
    case False
    with Inr assms show ?thesis
      by (simp add: index_text_def load_index_def and_then_def ExitOnErr_def done_with_def
          log_event_def)
  next
    case True
    show ?thesis
    proof (cases "getSummary lib MB")
      case (Inl e)
      with Inr True assms show ?thesis by (simp add: index_text_def)
    next
      case sm: (Inr Ix)
      with Inr True assms show ?thesis
        by (simp add: index_text_def load_index_def and_then_def ExitOnErr_def done_with_def
            log_event_def)
    qed
  qed
qed

lemma write_output_thin:
  assumes "\<not> DontPrint opts" and "openOutput lib F = None"
  shows "\<exists>w'. write_output opts lib I F None Index w = (w', Inr ()) \<and>
           outputs w' = outputs w @
             [(F, case Index of Some Ix \<Rightarrow> Index_print lib Ix | None \<Rightarrow> [])]"
  using assms
  by (cases Index) (simp_all add: write_output_def Let_def inlineCSS_empty log_event_def)

lemma process_module_thin_output:
  assumes thin: "PrintThinLTOIndexOnly opts" and pr: "\<not> DontPrint opts"
    and it: "index_text lib MB = Some t"
    and op: "openOutput lib (resolveFinalFilename (OutputFilename opts) (DontPrint opts) inName N I) = None"
  shows "\<exists>w'. process_module opts lib inName N I MB w = (w', Inr ()) \<and>
           outputs w' = outputs w @
             [(resolveFinalFilename (OutputFilename opts) (DontPrint opts) inName N I, t)]"
proof -
  let ?F = "resolveFinalFilename (OutputFilename opts) (DontPrint opts) inName N I"
  from load_index_text [OF it, of opts I w] obtain w1 Index
    where li: "load_index opts lib I MB w = (w1, Inr Index)" and o1: "outputs w1 = outputs w"
      and t: "t = (case Index of Some Ix \<Rightarrow> Index_print lib Ix | None \<Rightarrow> [])" by blast
  from write_output_thin [OF pr op, of I Index w1] obtain w'
    where wo: "write_output opts lib I ?F None Index w1 = (w', Inr ())"
      and o': "outputs w' = outputs w1 @
                 [(?F, case Index of Some Ix \<Rightarrow> Index_print lib Ix | None \<Rightarrow> [])]" by blast
  have "process_module opts lib inName N I MB w = (w', Inr ())"
    by (simp add: process_module_def and_then_def load_module_thin [OF thin] li wo)
  moreover have "outputs w' = outputs w @ [(?F, t)]" using o' o1 t by simp
  ultimately show ?thesis by blast
qed

lemma process_modules_thin_output:
  assumes thin: "PrintThinLTOIndexOnly opts" and pr: "\<not> DontPrint opts"
  shows "(\<forall>MB \<in> set Mods. index_text lib MB = Some (rendered MB)) \<Longrightarrow>
         (\<forall>J. I \<le> J \<and> J < I + length Mods \<longrightarrow>
            openOutput lib (resolveFinalFilename (OutputFilename opts) (DontPrint opts) inName N J) = None) \<Longrightarrow>
         \<exists>w'. process_modules opts lib inName N I Mods w = (w', Inr ()) \<and>
           outputs w' = outputs w @
             map (\<lambda>(J, MB). (resolveFinalFilename (OutputFilename opts) (DontPrint opts) inName N J,
                              rendered MB))
                 (enumerate I Mods)"
proof (induction Mods arbitrary: I w)
  case Nil
  show ?case by (simp add: done_with_def)
next
  case (Cons MB Mods)
  from Cons.prems(1) have it: "index_text lib MB = Some (rendered MB)" by simp
  from Cons.prems(2) have op: "openOutput lib (resolveFinalFilename (OutputFilename opts) (DontPrint opts) inName N I) = None"
    by simp
  from process_module_thin_output [OF thin pr it op, of w]
  obtain w1 where w1: "process_module opts lib inName N I MB w = (w1, Inr ())"
    and o1: "outputs w1 = outputs w @
             [(resolveFinalFilename (OutputFilename opts) (DontPrint opts) inName N I, rendered MB)]"
    by blast
  have a: "\<forall>MB \<in> set Mods. index_text lib MB = Some (rendered MB)"
    using Cons.prems(1) by simp
  have b: "\<forall>J. Suc I \<le> J \<and> J < Suc I + length Mods \<longrightarrow>
            openOutput lib (resolveFinalFilename (OutputFilename opts) (DontPrint opts) inName N J) = None"
    using Cons.prems(2) by simp
  from Cons.IH [OF a b, of w1]
  obtain w' where w': "process_modules opts lib inName N (Suc I) Mods w1 = (w', Inr ())"
    and o': "outputs w' = outputs w1 @
             map (\<lambda>(J, MB). (resolveFinalFilename (OutputFilename opts) (DontPrint opts) inName N J,
                              rendered MB))
                 (enumerate (Suc I) Mods)" by blast
  have "process_modules opts lib inName N I (MB # Mods) w = (w', Inr ())"
    by (simp add: and_then_def w1 w')
  moreover have "outputs w' = outputs w @
             map (\<lambda>(J, MB). (resolveFinalFilename (OutputFilename opts) (DontPrint opts) inName N J,
                              rendered MB))
                 (enumerate I (MB # Mods))"
    by (simp add: o' o1)
  ultimately show ?case by blast
qed

lemma process_file_thin_output:
  assumes thin: "PrintThinLTOIndexOnly opts" and pr: "\<not> DontPrint opts"
    and rc: "readable_container opts lib mods rendered inName"
  shows "\<exists>w'. process_file opts lib inName w = (w', Inr ()) \<and>
           outputs w' = outputs w @ index_outputs opts rendered inName (mods inName)"
proof -
  from rc obtain buf where rd: "getFileOrSTDIN lib inName = Inr buf"
    and dc: "getBitcodeFileContents lib buf = Inr (mods inName)"
    and sm: "\<forall>MB \<in> set (mods inName). index_text lib MB = Some (rendered MB)"
    and op: "\<forall>J < length (mods inName).
         openOutput lib (resolveFinalFilename (OutputFilename opts) (DontPrint opts) inName
                           (length (mods inName)) J) = None"
    unfolding readable_container_def by blast
  let ?Mods = "mods inName"
  let ?w2 = "log_event (EvDecodeContainer inName) (log_event (EvReadInput inName) w)"
  let ?w3 = "if OutputFilename opts = ''-'' \<and> length ?Mods > 1
             then write_errs multi_module_warning ?w2 else ?w2"
  have op': "\<forall>J. 0 \<le> J \<and> J < 0 + length ?Mods \<longrightarrow>
            openOutput lib (resolveFinalFilename (OutputFilename opts) (DontPrint opts) inName (length ?Mods) J) = None"
    using op by simp
  from process_modules_thin_output [OF thin pr sm op', of ?w3]
  obtain w' where w': "process_modules opts lib inName (length ?Mods) 0 ?Mods ?w3 = (w', Inr ())"
    and o': "outputs w' = outputs ?w3 @ index_outputs opts rendered inName ?Mods"
    unfolding index_outputs_def by blast
  have "process_file opts lib inName w = (w', Inr ())"
    using rd dc w' by (simp add: process_file_def Let_def and_then_def ExitOnErr_def)
  moreover have "outputs ?w3 = outputs w"
    by (simp add: log_event_def write_errs_def)
  ultimately show ?thesis using o' by simp
qed

lemma process_files_thin_output:
  assumes thin: "PrintThinLTOIndexOnly opts" and pr: "\<not> DontPrint opts"
  shows "(\<forall>f \<in> set good. readable_container opts lib mods rendered f) \<Longrightarrow>
         \<exists>w'. process_files opts lib good w = (w', Inr ()) \<and>
           outputs w' = outputs w @ concat (map (\<lambda>f. index_outputs opts rendered f (mods f)) good)"
proof (induction good arbitrary: w)
  case Nil
  show ?case by (simp add: done_with_def)
next
  case (Cons f good)
  from Cons.prems have rc: "readable_container opts lib mods rendered f"
    and rest: "\<forall>f \<in> set good. readable_container opts lib mods rendered f" by simp_all
  from process_file_thin_output [OF thin pr rc, of w]
  obtain w1 where w1: "process_file opts lib f w = (w1, Inr ())"
    and o1: "outputs w1 = outputs w @ index_outputs opts rendered f (mods f)" by blast
  from Cons.IH [OF rest, of w1]
  obtain w' where w': "process_files opts lib good w1 = (w', Inr ())"
    and o': "outputs w' = outputs w1 @ concat (map (\<lambda>f. index_outputs opts rendered f (mods f)) good)"
    by blast
  have "process_files opts lib (f # good) w = (w', Inr ())"
    by (simp add: and_then_def w1 w')
  moreover have "outputs w' = outputs w @
      concat (map (\<lambda>f. index_outputs opts rendered f (mods f)) (f # good))"
    by (simp add: o' o1)
  ultimately show ?case by blast
qed

lemma process_files_append:
  "process_files opts lib (a @ b) w =
     and_then (process_files opts lib a) (\<lambda>u. process_files opts lib b) w"
proof (induction a arbitrary: w)
  case Nil
  show ?case by (simp add: and_then_def done_with_def)
next
  case (Cons f a)
  show ?case
    by (cases "process_file opts lib f w") (auto simp: and_then_def Cons.IH split: sum.splits)
qed

lemma main_process_files:
  assumes "\<not> (length (InputFilenames opts) > 1 \<and> OutputFilename opts \<noteq> [])"
  shows "main opts lib =
           (case process_files opts lib (input_files opts) initial_world of
              (w, Inl rc) \<Rightarrow> (w, rc) | (w, Inr u) \<Rightarrow> (w, 0))"
  using assms by (cases "InputFilenames opts") (auto simp: main_def input_files_def)

lemma index_text_summary:
  "getLTOInfo lib MB = Inr True \<Longrightarrow> getSummary lib MB = Inr Ix \<Longrightarrow>
   index_text lib MB = Some (Index_print lib Ix)"
  by (simp add: index_text_def)

text \<open>
  C8 as stated fails: with \<^verbatim>\<open>--disable-output\<close> as well, the index of a module that has
  one is not printed (line 264), and the output is empty.
\<close>

theorem C8_disable_output_counterexample:
  "PrintThinLTOIndexOnly (example_options\<lparr>DontPrint := True, PrintThinLTOIndexOnly := True\<rparr>) \<and>
   getBitcodeFileContents example_library ''one.bc'' = Inr [0] \<and>
   getLTOInfo example_library 0 = Inr True \<and>
   getSummary example_library 0 = Inr ''^0 = module: m0'' \<and>
   Index_print example_library ''^0 = module: m0'' = ''^0 = module: m0'' @ [CHR 0x0A] \<and>
   main (example_options\<lparr>DontPrint := True, PrintThinLTOIndexOnly := True\<rparr>) example_library =
     (\<lparr>errs = [],
       trace = [EvReadInput ''one.bc'', EvDecodeContainer ''one.bc'', EvGetLTOInfo 0,
                EvGetSummary 0, EvOpenOutput ''-'', EvKeep ''-''],
       outputs = [(''-'', [])]\<rparr>, 0) \<and>
   \<not> sublist (''^0 = module: m0'' @ [CHR 0x0A]) []"
  by code_simp

text \<open>
  C8 (amended): with \<^verbatim>\<open>--print-thinlto-index-only\<close>, no run loads, materializes or prints
  a module, and the index text of a module with a summary index is the rendered index.
  When moreover output is not disabled and the run is not refused for an explicit output
  name with several inputs, then, for the input files in order (standard input when there
  is no positional input), as long as each input is processed without error, the outputs
  kept begin with one output per module of each of these containers, in order, under the
  module's resolved name, whose text is exactly the module's index text: the rendered
  summary index when the module has one, nothing when it has none, and no text of the
  module printer. When every input is processed without error these are all the outputs
  and the run returns 0.
\<close>

theorem C8_thinlto_index_only:
  assumes "PrintThinLTOIndexOnly opts"
  shows "no_module_events (fst (main opts lib)) \<and>
         (getLTOInfo lib MB = Inr True \<and> getSummary lib MB = Inr Ix
            \<longrightarrow> index_text lib MB = Some (Index_print lib Ix)) \<and>
         (\<not> DontPrint opts \<and>
          \<not> (length (InputFilenames opts) > 1 \<and> OutputFilename opts \<noteq> []) \<and>
          input_files opts = good @ rest \<and>
          (\<forall>f \<in> set good. readable_container opts lib mods rendered f)
          \<longrightarrow> prefix (concat (map (\<lambda>f. index_outputs opts rendered f (mods f)) good))
                (outputs (fst (main opts lib))) \<and>
              (rest = [] \<longrightarrow>
                 snd (main opts lib) = 0 \<and>
                 outputs (fst (main opts lib)) =
                   concat (map (\<lambda>f. index_outputs opts rendered f (mods f)) good)))"
proof (intro conjI impI)
  show "no_module_events (fst (main opts lib))"
    by (rule main_thin_trace [OF assms])
next
  assume "getLTOInfo lib MB = Inr True \<and> getSummary lib MB = Inr Ix"
  then show "index_text lib MB = Some (Index_print lib Ix)"
    by (simp add: index_text_summary)
next
  let ?exp = "concat (map (\<lambda>f. index_outputs opts rendered f (mods f)) good)"
  assume h: "\<not> DontPrint opts \<and>
          \<not> (length (InputFilenames opts) > 1 \<and> OutputFilename opts \<noteq> []) \<and>
          input_files opts = good @ rest \<and>
          (\<forall>f \<in> set good. readable_container opts lib mods rendered f)"
  then have pr: "\<not> DontPrint opts"
    and nc: "\<not> (length (InputFilenames opts) > 1 \<and> OutputFilename opts \<noteq> [])"
    and inp: "input_files opts = good @ rest"
    and gd: "\<forall>f \<in> set good. readable_container opts lib mods rendered f"
    by blast+
  from process_files_thin_output [OF assms pr gd, of initial_world]
  obtain w1 where w1: "process_files opts lib good initial_world = (w1, Inr ())"
    and o1: "outputs w1 = ?exp" by (auto simp: initial_world_def)
  have m: "main opts lib =
           (case process_files opts lib rest w1 of
              (w, Inl rc) \<Rightarrow> (w, rc) | (w, Inr u) \<Rightarrow> (w, 0))"
    by (simp add: main_process_files [OF nc] inp process_files_append and_then_def w1)
  have fm: "fst (main opts lib) = fst (process_files opts lib rest w1)"
    unfolding m by (auto split: prod.splits sum.splits)
  have "outputs_from ?exp w1" by (simp add: outputs_from_def o1)
  from keepsD [OF keeps_outputs_process_files_thin [OF assms] this]
  have "outputs_from ?exp (fst (process_files opts lib rest w1))" .
  then show "prefix ?exp (outputs (fst (main opts lib)))"
    by (simp add: fm outputs_from_def)
  {
    assume "rest = []"
    with m have "main opts lib = (w1, 0)" by (simp add: done_with_def)
    with o1 show "snd (main opts lib) = 0" and "outputs (fst (main opts lib)) = ?exp"
      by simp_all
  }
qed

theorem C8_thinlto_index_only_witness:
  "no_module_events
     (fst (main (example_options\<lparr>InputFilenames := [''one.bc'', ''two.bc''],
                                 PrintThinLTOIndexOnly := True\<rparr>) example_library)) \<and>
   snd (main (example_options\<lparr>InputFilenames := [''one.bc'', ''two.bc''],
                              PrintThinLTOIndexOnly := True\<rparr>) example_library) = 0 \<and>
   outputs
     (fst (main (example_options\<lparr>InputFilenames := [''one.bc'', ''two.bc''],
                                 PrintThinLTOIndexOnly := True\<rparr>) example_library)) =
     [(''one.html'', ''^0 = module: m0'' @ [CHR 0x0A]),
      (''two.0.html'', ''^0 = module: m0'' @ [CHR 0x0A]),
      (''two.1.html'', ''^0 = module: m1'' @ [CHR 0x0A])] \<and>
   snd (main (example_options\<lparr>InputFilenames := [], PrintThinLTOIndexOnly := True\<rparr>)
          example_library) = 0 \<and>
   outputs
     (fst (main (example_options\<lparr>InputFilenames := [], PrintThinLTOIndexOnly := True\<rparr>)
             example_library)) =
     [(''-'', ''^0 = module: m0'' @ [CHR 0x0A]), (''-'', ''^0 = module: m1'' @ [CHR 0x0A])]"
proof -
  let ?o = "example_options\<lparr>InputFilenames := [''one.bc'', ''two.bc''], PrintThinLTOIndexOnly := True\<rparr>"
  let ?s = "example_options\<lparr>InputFilenames := [], PrintThinLTOIndexOnly := True\<rparr>"
  let ?mods = "\<lambda>f. if f = ''one.bc'' then [0::nat] else [0, 1]"
  let ?rend = "\<lambda>MB. ''^0 = module: m'' @ to_string MB @ [CHR 0x0A]"
  have thin: "PrintThinLTOIndexOnly ?o" by (simp add: example_options_def)
  have thins: "PrintThinLTOIndexOnly ?s" by (simp add: example_options_def)
  have rc: "readable_container opts example_library ?mods ?rend f"
    if "f = ''one.bc'' \<or> f = ''two.bc'' \<or> f = ''-''" for opts f
    using that by (auto simp: readable_container_def example_library_def index_text_def)
  have h: "\<not> DontPrint ?o \<and>
          \<not> (length (InputFilenames ?o) > 1 \<and> OutputFilename ?o \<noteq> []) \<and>
          input_files ?o = [''one.bc'', ''two.bc''] @ [] \<and>
          (\<forall>f \<in> set [''one.bc'', ''two.bc'']. readable_container ?o example_library ?mods ?rend f)"
    using rc by (simp add: example_options_def input_files_def)
  have hs: "\<not> DontPrint ?s \<and>
          \<not> (length (InputFilenames ?s) > 1 \<and> OutputFilename ?s \<noteq> []) \<and>
          input_files ?s = [''-''] @ [] \<and>
          (\<forall>f \<in> set [''-'']. readable_container ?s example_library ?mods ?rend f)"
    using rc by (simp add: example_options_def input_files_def)
  have e: "concat (map (\<lambda>f. index_outputs ?o ?rend f (?mods f)) [''one.bc'', ''two.bc''])
           = [(''one.html'', ''^0 = module: m0'' @ [CHR 0x0A]),
              (''two.0.html'', ''^0 = module: m0'' @ [CHR 0x0A]),
              (''two.1.html'', ''^0 = module: m1'' @ [CHR 0x0A])]"
    by code_simp
  have es: "concat (map (\<lambda>f. index_outputs ?s ?rend f (?mods f)) [''-''])
           = [(''-'', ''^0 = module: m0'' @ [CHR 0x0A]), (''-'', ''^0 = module: m1'' @ [CHR 0x0A])]"
    by code_simp
  note r = C8_thinlto_index_only
    [OF thin, where lib = example_library and good = "[''one.bc'', ''two.bc'']" and rest = "[]"
       and mods = "?mods" and rendered = "?rend" and MB = "0" and Ix = "[]"]
  note rs = C8_thinlto_index_only
    [OF thins, where lib = example_library and good = "[''-'']" and rest = "[]"
       and mods = "?mods" and rendered = "?rend" and MB = "0" and Ix = "[]"]
  have a: "no_module_events (fst (main ?o example_library))"
    by (rule conjunct1 [OF r])
  from mp [OF conjunct2 [OF conjunct2 [OF r]] h]
  have b: "snd (main ?o example_library) = 0 \<and>
           outputs (fst (main ?o example_library)) =
             concat (map (\<lambda>f. index_outputs ?o ?rend f (?mods f)) [''one.bc'', ''two.bc''])"
    by blast
  from mp [OF conjunct2 [OF conjunct2 [OF rs]] hs]
  have c: "snd (main ?s example_library) = 0 \<and>
           outputs (fst (main ?s example_library)) =
             concat (map (\<lambda>f. index_outputs ?s ?rend f (?mods f)) [''-''])"
    by blast
  from a b c show ?thesis unfolding e es by simp
qed

text \<open>
  C10 at \<^verbatim>\<open>--disable-output\<close>, standard input and no \<^verbatim>\<open>-o\<close>, for a container with two
  modules: the names are \<open>-.0\<close> and \<open>-.1\<close>, two files that are opened and kept, where the
  comment of line 229 says "Just use stdout".
\<close>

theorem C10_disable_output_stdin_evaluation:
  "InputFilenames (example_options\<lparr>InputFilenames := [], DontPrint := True\<rparr>) = [] \<and>
   OutputFilename (example_options\<lparr>InputFilenames := [], DontPrint := True\<rparr>) = [] \<and>
   getBitcodeFileContents example_library ''-'' = Inr [0, 1] \<and>
   resolveFinalFilename [] True ''-'' 2 0 = ''-.0'' \<and>
   resolveFinalFilename [] True ''-'' 2 1 = ''-.1'' \<and>
   main (example_options\<lparr>InputFilenames := [], DontPrint := True\<rparr>) example_library =
     (\<lparr>errs = [],
       trace = [EvReadInput ''-'', EvDecodeContainer ''-'',
                EvGetLazyModule 0, EvMaterializeAll 0, EvGetLTOInfo 0, EvGetSummary 0,
                EvOpenOutput ''-.0'', EvKeep ''-.0'',
                EvGetLazyModule 1, EvMaterializeAll 1, EvGetLTOInfo 1, EvGetSummary 1,
                EvOpenOutput ''-.1'', EvKeep ''-.1''],
       outputs = [(''-.0'', []), (''-.1'', [])]\<rparr>, 0)"
  by code_simp

text \<open>
  Without \<^verbatim>\<open>--disable-output\<close> the name inferred for standard input is \<open>-\<close> for every
  module, and the warning about several modules on standard output is written exactly
  when \<^verbatim>\<open>-o -\<close> was given and the container holds more than one module.
\<close>

lemma resolve_stdin_inferred:
  "\<not> disabled \<Longrightarrow> resolveFinalFilename [] disabled ''-'' N I = ''-''"
  by (simp add: resolveFinalFilename_def)

lemma process_file_warning:
  assumes "getFileOrSTDIN lib inName = Inr buf" and "getBitcodeFileContents lib buf = Inr Mods"
  shows "process_file opts lib inName w =
           process_modules opts lib inName (length Mods) 0 Mods
             (let w2 = log_event (EvDecodeContainer inName) (log_event (EvReadInput inName) w)
              in if OutputFilename opts = ''-'' \<and> length Mods > 1
                 then write_errs multi_module_warning w2 else w2)"
  using assms by (simp add: process_file_def Let_def and_then_def ExitOnErr_def)

subsection \<open>The CSS inliner\<close>

lemma no_terminator_simps:
  "no_terminator []"
  "no_terminator (c # cs) = (\<not> is_line_terminator c \<and> no_terminator cs)"
  "no_terminator (a @ b) = (no_terminator a \<and> no_terminator b)"
  by (auto simp: no_terminator_def)

lemma match_rest_Some:
  "match_rest s = Some n \<Longrightarrow> \<exists>x. take n s = x @ ''>'' \<and> no_terminator x \<and> n = Suc (length x) \<and> n \<le> length s"
proof (induction s arbitrary: n)
  case Nil
  then show ?case by simp
next
  case (Cons c cs)
  from Cons.prems have c: "\<not> is_line_terminator c" by (auto split: if_splits)
  show ?case
  proof (cases "match_rest cs")
    case None
    with Cons.prems c have "c = CHR ''>''" "n = 1" by (auto split: if_splits)
    then show ?thesis by (auto simp: no_terminator_simps)
  next
    case (Some k)
    with Cons.prems c have n: "n = Suc k" by simp
    from Cons.IH [OF Some] obtain x where x: "take k cs = x @ ''>''" "no_terminator x"
      "k = Suc (length x)" "k \<le> length cs" by blast
    have "take n (c # cs) = (c # x) @ ''>''" using n x(1) by simp
    moreover have "no_terminator (c # x)" using c x(2) by (simp add: no_terminator_simps)
    ultimately show ?thesis using n x(3,4) by (intro exI [of _ "c # x"]) simp
  qed
qed

lemma match_rest_complete:
  "no_terminator x \<Longrightarrow> match_rest (x @ ''>'' @ t) \<noteq> None"
proof (induction x)
  case Nil
  show ?case by (simp add: is_line_terminator_def split: option.splits)
next
  case (Cons c x)
  then show ?case by (auto simp: no_terminator_simps split: option.splits)
qed

lemma prefix_link: "prefix ''<link'' s = (\<exists>r. s = ''<link'' @ r)"
  by (auto simp: prefix_def)

lemma match_here_Some:
  assumes "match_here s = Some n"
  shows "\<exists>x. take n s = ''<link'' @ x @ ''>'' \<and> no_terminator x \<and> n = length x + 6 \<and> n \<le> length s"
proof -
  from assms obtain r k where s: "s = ''<link'' @ r" and k: "match_rest r = Some k" and n: "n = 5 + k"
    by (auto simp: match_here_def prefix_link split: if_splits)
  from match_rest_Some [OF k] obtain x where x: "take k r = x @ ''>''" "no_terminator x"
    "k = Suc (length x)" "k \<le> length r" by blast
  have n5: "n = Suc (Suc (Suc (Suc (Suc k))))" using n by simp
  have "take n s = ''<link'' @ x @ ''>''" unfolding s n5 using x(1) by simp
  moreover have "n = length x + 6" using n x(3) by simp
  moreover have "n \<le> length s" using n x(4) s by simp
  ultimately show ?thesis using x(2) by blast
qed

lemma match_here_complete:
  "no_terminator x \<Longrightarrow> match_here (''<link'' @ x @ ''>'' @ t) \<noteq> None"
  using match_rest_complete [of x t] by (simp add: match_here_def)

lemma match_here_iff:
  "(match_here s \<noteq> None) = (\<exists>x t. s = ''<link'' @ x @ ''>'' @ t \<and> no_terminator x)"
proof
  assume "match_here s \<noteq> None"
  then obtain n where n: "match_here s = Some n" by auto
  from match_here_Some [OF n] obtain x where x: "take n s = ''<link'' @ x @ ''>''" "no_terminator x"
    by blast
  have "s = take n s @ drop n s" by simp
  then have "s = (''<link'' @ x @ ''>'') @ drop n s" unfolding x(1) .
  then have "s = ''<link'' @ x @ ''>'' @ drop n s" by simp
  with x(2) show "\<exists>x t. s = ''<link'' @ x @ ''>'' @ t \<and> no_terminator x" by blast
next
  assume "\<exists>x t. s = ''<link'' @ x @ ''>'' @ t \<and> no_terminator x"
  then show "match_here s \<noteq> None" using match_here_complete by blast
qed

lemma regex_search_None:
  "(regex_search s = None) = (\<forall>a r. s = a @ r \<longrightarrow> match_here r = None)"
proof (induction s)
  case Nil
  show ?case by (simp add: match_here_def)
next
  case (Cons c cs)
  show ?case
  proof (cases "match_here (c # cs)")
    case (Some n)
    then have "regex_search (c # cs) \<noteq> None" by simp
    moreover have "\<not> (\<forall>a r. c # cs = a @ r \<longrightarrow> match_here r = None)"
      using Some by (auto intro: exI [of _ "[]"])
    ultimately show ?thesis by blast
  next
    case None
    have "(\<forall>a r. c # cs = a @ r \<longrightarrow> match_here r = None) =
          (\<forall>a r. cs = a @ r \<longrightarrow> match_here r = None)"
    proof
      assume h: "\<forall>a r. c # cs = a @ r \<longrightarrow> match_here r = None"
      show "\<forall>a r. cs = a @ r \<longrightarrow> match_here r = None"
      proof (intro allI impI)
        fix a r assume "cs = a @ r"
        then have "c # cs = (c # a) @ r" by simp
        with h show "match_here r = None" by blast
      qed
    next
      assume h: "\<forall>a r. cs = a @ r \<longrightarrow> match_here r = None"
      show "\<forall>a r. c # cs = a @ r \<longrightarrow> match_here r = None"
      proof (intro allI impI)
        fix a r assume e: "c # cs = a @ r"
        show "match_here r = None"
        proof (cases a)
          case Nil
          with e None show ?thesis by simp
        next
          case (Cons d a')
          with e have "cs = a' @ r" by simp
          with h show ?thesis by blast
        qed
      qed
    qed
    with None Cons.IH show ?thesis by simp
  qed
qed

lemma regex_search_None_iff: "(regex_search s = None) = (\<not> has_placeholder s)"
proof -
  have "has_placeholder s = (\<exists>a r. s = a @ r \<and> match_here r \<noteq> None)"
  proof
    assume "has_placeholder s"
    then obtain p x t where e: "s = p @ ''<link'' @ x @ ''>'' @ t" and x: "no_terminator x"
      unfolding has_placeholder_def by blast
    from match_here_complete [OF x] have "match_here (''<link'' @ x @ ''>'' @ t) \<noteq> None" .
    with e show "\<exists>a r. s = a @ r \<and> match_here r \<noteq> None" by blast
  next
    assume "\<exists>a r. s = a @ r \<and> match_here r \<noteq> None"
    then obtain a r where e: "s = a @ r" and m: "match_here r \<noteq> None" by blast
    from m obtain x t where r: "r = ''<link'' @ x @ ''>'' @ t" and x: "no_terminator x"
      unfolding match_here_iff by blast
    from e r have "s = a @ ''<link'' @ x @ ''>'' @ t" by simp
    with x show "has_placeholder s" unfolding has_placeholder_def by blast
  qed
  then show ?thesis by (simp add: regex_search_None)
qed

lemma leftmost_Nil: "leftmost [] r"
  by (simp add: leftmost_def)

lemma leftmost_Cons:
  assumes "match_here (c # p @ r) = None" and "leftmost p r"
  shows "leftmost (c # p) r"
  unfolding leftmost_def
proof (intro allI impI)
  fix a b assume e: "c # p = a @ b \<and> b \<noteq> []"
  show "match_here (b @ r) = None"
  proof (cases a)
    case Nil
    with e have "b = c # p" by simp
    with assms(1) show ?thesis by simp
  next
    case (Cons d a')
    with e have "p = a' @ b \<and> b \<noteq> []" by simp
    with assms(2) show ?thesis unfolding leftmost_def by blast
  qed
qed

lemma regex_search_Some:
  "regex_search s = Some (p, m, t) \<Longrightarrow> s = p @ m @ t \<and> is_tag m \<and> leftmost p (m @ t)"
proof (induction s arbitrary: p)
  case Nil
  then show ?case by simp
next
  case (Cons c cs)
  show ?case
  proof (cases "match_here (c # cs)")
    case (Some n)
    with Cons.prems have p: "p = []" and m: "m = take n (c # cs)" and t: "t = drop n (c # cs)"
      by simp_all
    from match_here_Some [OF Some] obtain y where y: "take n (c # cs) = ''<link'' @ y @ ''>''"
      "no_terminator y" by blast
    have "c # cs = p @ m @ t" unfolding p m t by simp
    moreover have "is_tag m"
      unfolding m is_tag_def using y by blast
    moreover have "leftmost p (m @ t)"
      unfolding p by (rule leftmost_Nil)
    ultimately show ?thesis by simp
  next
    case None
    from Cons.prems None have "map_option (\<lambda>(p, m, s). (c # p, m, s)) (regex_search cs) = Some (p, m, t)"
      by simp
    then obtain p' where p': "regex_search cs = Some (p', m, t)" and p: "p = c # p'"
      by (cases "regex_search cs") auto
    from Cons.IH [OF p'] have cs: "cs = p' @ m @ t" and y: "is_tag m"
      and lm: "leftmost p' (m @ t)" by simp_all
    from None cs have "match_here (c # p' @ m @ t) = None" by simp
    from leftmost_Cons [OF this lm] have "leftmost p (m @ t)" unfolding p .
    with cs y p show ?thesis by simp
  qed
qed

lemma format_no_dollar: "CHR ''$'' \<notin> set fmt \<Longrightarrow> format fmt pre m suf = fmt"
  by (induction fmt pre m suf rule: format.induct) auto

lemma ReplacementString_no_dollar:
  "CHR ''$'' \<notin> set CSS \<Longrightarrow> CHR ''$'' \<notin> set (ReplacementString CSS)"
  by (simp add: ReplacementString_def)

lemma regex_replace_None: "regex_search s = None \<Longrightarrow> regex_replace s fmt = s"
  by (subst regex_replace.simps) simp

lemma regex_replace_Some:
  "regex_search s = Some (p, m, t) \<Longrightarrow>
   regex_replace s fmt = p @ format fmt p m t @ regex_replace t fmt"
  by (subst regex_replace.simps) simp

lemma count_matches_None: "regex_search s = None \<Longrightarrow> count_matches s = 0"
  by (subst count_matches.simps) simp

lemma count_matches_Some:
  "regex_search s = Some (p, m, t) \<Longrightarrow> count_matches s = Suc (count_matches t)"
  by (subst count_matches.simps) simp

lemma count_matches_zero: "(count_matches s = 0) = (regex_search s = None)"
  by (subst count_matches.simps) (auto split: option.splits)

lemma count_matches_one:
  "count_matches s = 1 \<Longrightarrow> \<exists>p m t. regex_search s = Some (p, m, t) \<and> regex_search t = None"
proof -
  assume a: "count_matches s = 1"
  show ?thesis
  proof (cases "regex_search s")
    case None
    with a show ?thesis by (simp add: count_matches_None)
  next
    case (Some r)
    obtain p m t where r: "r = (p, m, t)" by (cases r)
    from a count_matches_Some [of s p m t] Some r have "count_matches t = 0" by simp
    then have "regex_search t = None" by (simp add: count_matches_zero)
    with Some r show ?thesis by blast
  qed
qed

lemma has_placeholder_sublist: "has_placeholder s = (\<exists>m. is_tag m \<and> sublist m s)"
proof
  assume "has_placeholder s"
  then obtain p x t where e: "s = p @ ''<link'' @ x @ ''>'' @ t" and x: "no_terminator x"
    unfolding has_placeholder_def by blast
  from e have "s = p @ (''<link'' @ x @ ''>'') @ t" by simp
  then have "sublist (''<link'' @ x @ ''>'') s" unfolding sublist_def by blast
  moreover have "is_tag (''<link'' @ x @ ''>'')" unfolding is_tag_def using x by blast
  ultimately show "\<exists>m. is_tag m \<and> sublist m s" by blast
next
  assume "\<exists>m. is_tag m \<and> sublist m s"
  then obtain m where m: "is_tag m" and sl: "sublist m s" by blast
  from m obtain x where x: "m = ''<link'' @ x @ ''>''" "no_terminator x"
    unfolding is_tag_def by blast
  from sl obtain p t where "s = p @ m @ t" unfolding sublist_def by blast
  with x(1) have "s = p @ ''<link'' @ x @ ''>'' @ t" by simp
  with x(2) show "has_placeholder s" unfolding has_placeholder_def by blast
qed

lemma is_tag_no_terminator: "is_tag m \<Longrightarrow> no_terminator m"
  by (auto simp: is_tag_def no_terminator_simps is_line_terminator_def)

lemma is_tag_link: "is_tag m \<Longrightarrow> sublist ''<link'' m"
proof -
  assume "is_tag m"
  then obtain x where "m = ''<link'' @ (x @ ''>'')" unfolding is_tag_def by auto
  then show ?thesis by (metis sublist_append_rightI)
qed

lemma sublist_across_newline:
  assumes nt: "no_terminator m" and sl: "sublist m (u @ CHR 0x0A # v)"
  shows "sublist m u \<or> sublist m v"
proof -
  have lf: "CHR 0x0A \<notin> set m"
    using nt by (auto simp: no_terminator_def is_line_terminator_def)
  from sl have "sublist m u \<or> sublist m (CHR 0x0A # v) \<or>
      (\<exists>m1 m2. m = m1 @ m2 \<and> suffix m1 u \<and> prefix m2 (CHR 0x0A # v))"
    by (simp only: sublist_append)
  then consider (a) "sublist m u" | (b) "sublist m (CHR 0x0A # v)"
    | (c) m1 m2 where "m = m1 @ m2" "suffix m1 u" "prefix m2 (CHR 0x0A # v)" by blast
  then show ?thesis
  proof cases
    case a
    then show ?thesis by simp
  next
    case b
    then have "prefix m (CHR 0x0A # v) \<or> sublist m v" by (simp only: sublist_Cons_right)
    then show ?thesis
    proof
      assume "prefix m (CHR 0x0A # v)"
      with lf have "m = []" by (cases m) auto
      then show ?thesis by simp
    next
      assume "sublist m v"
      then show ?thesis by simp
    qed
  next
    case c
    from c(3) lf c(1) have "m2 = []" by (cases m2) auto
    with c(1,2) have "suffix m u" by simp
    then show ?thesis by (simp add: suffix_imp_sublist)
  qed
qed

lemma sublist_chain:
  assumes "sublist a b" and "sublist b c"
  shows "sublist a c"
proof -
  from assms(1) obtain p1 s1 where b: "b = p1 @ a @ s1" unfolding sublist_def by blast
  from assms(2) obtain p2 s2 where c: "c = p2 @ b @ s2" unfolding sublist_def by blast
  from b c have "c = (p2 @ p1) @ a @ (s1 @ s2)" by simp
  then show ?thesis unfolding sublist_def by blast
qed

lemma link_not_in_style_open: "\<not> sublist ''<link'' ''<style> ''"
  by code_simp

lemma link_not_in_style_close: "\<not> sublist ''<link'' ''</style> ''"
  by code_simp

lemma split_link_head:
  assumes "L1 @ us = ''<link''" and "L1 \<noteq> []" and "us \<noteq> []"
  shows "hd us \<noteq> CHR ''<''"
proof -
  from assms(2) obtain c L1' where L1: "L1 = c # L1'" by (cases L1) auto
  with assms(1) have "L1' @ us = ''link''" by simp
  then have "set us \<subseteq> set ''link''" by (metis set_append Un_upper2)
  moreover from assms(3) have "hd us \<in> set us" by simp
  ultimately have "hd us \<in> set ''link''" by blast
  then show ?thesis by auto
qed

lemma link_not_across_style_close:
  assumes "\<not> sublist ''<link'' CSS"
  shows "\<not> sublist ''<link'' (CSS @ ''</style> '')"
proof
  assume "sublist ''<link'' (CSS @ ''</style> '')"
  then have "sublist ''<link'' CSS \<or> sublist ''<link'' ''</style> '' \<or>
      (\<exists>m1 m2. ''<link'' = m1 @ m2 \<and> suffix m1 CSS \<and> prefix m2 ''</style> '')"
    by (simp only: sublist_append)
  with assms link_not_in_style_close
  obtain m1 m2 where e: "''<link'' = m1 @ m2" and s1: "suffix m1 CSS" and p2: "prefix m2 ''</style> ''"
    by blast
  show False
  proof (cases "m2 = []")
    case True
    with e s1 have "suffix ''<link'' CSS" by simp
    then have "sublist ''<link'' CSS" by (rule suffix_imp_sublist)
    with assms show False by simp
  next
    case False
    from p2 False have h: "hd m2 = CHR ''<''" by (cases m2) auto
    show False
    proof (cases "m1 = []")
      case True
      with e p2 have "prefix ''<link'' ''</style> ''" by simp
      then show False by simp
    next
      case m1: False
      from split_link_head [OF e [symmetric] m1 False] h show False by simp
    qed
  qed
qed

lemma tag_not_before_match:
  assumes rs: "regex_search Out = Some (p, m, t)" and L: "is_tag L"
    and sl: "sublist L (p @ ''<style> '')"
  shows False
proof -
  from regex_search_Some [OF rs] have m: "is_tag m" and lm: "leftmost p (m @ t)" by simp_all
  from L obtain x where Lx: "L = ''<link'' @ x @ ''>''" and x: "no_terminator x"
    unfolding is_tag_def by blast
  from m obtain y where my: "m = ''<link'' @ y @ ''>''" and y: "no_terminator y"
    unfolding is_tag_def by blast
  have inside: False if "sublist L p"
  proof -
    from that obtain a b where p: "p = a @ L @ b" unfolding sublist_def by blast
    have ne: "L @ b \<noteq> []" using Lx by simp
    from p have "p = a @ (L @ b)" by simp
    with lm ne have "match_here ((L @ b) @ (m @ t)) = None" unfolding leftmost_def by blast
    then have "match_here (''<link'' @ x @ ''>'' @ (b @ m @ t)) = None" unfolding Lx by simp
    with match_here_complete [OF x] show False by blast
  qed
  from sl have "sublist L p \<or> sublist L ''<style> '' \<or>
      (\<exists>L1 L2. L = L1 @ L2 \<and> suffix L1 p \<and> prefix L2 ''<style> '')"
    by (simp only: sublist_append)
  then consider (a) "sublist L p" | (b) "sublist L ''<style> ''"
    | (c) L1 L2 where "L = L1 @ L2" "suffix L1 p" "prefix L2 ''<style> ''" by blast
  then show False
  proof cases
    case a
    then show False by (rule inside)
  next
    case b
    from is_tag_link [OF L] b have "sublist ''<link'' ''<style> ''"
      by (rule sublist_chain)
    with link_not_in_style_open show False by simp
  next
    case c
    show False
    proof (cases "L2 = []")
      case True
      with c(1,2) have "suffix L p" by simp
      then have "sublist L p" by (rule suffix_imp_sublist)
      then show False by (rule inside)
    next
      case L2: False
      from c(3) L2 have h: "hd L2 = CHR ''<''" by (cases L2) auto
      from c(1) Lx have "L1 @ L2 = ''<link'' @ (x @ ''>'')" by simp
      then obtain us where us: "(L1 = ''<link'' @ us \<and> us @ L2 = x @ ''>'') \<or>
                                (L1 @ us = ''<link'' \<and> L2 = us @ (x @ ''>''))"
        by (auto simp only: append_eq_append_conv2)
      have first: False if a1: "L1 = ''<link'' @ us'" and a2: "us' @ L2 = x @ ''>''" for us'
      proof -
        from L2 obtain L2' z where L2z: "L2 = L2' @ [z]" by (metis rev_exhaust)
        from a2 L2z have "(us' @ L2') @ [z] = x @ ''>''" by simp
        then have "us' @ L2' = x" by (simp only: append1_eq_conv)
        with x have nus: "no_terminator us'" by (auto simp: no_terminator_simps)
        have nt: "no_terminator (us' @ ''<link'' @ y)"
          using nus y by (simp add: no_terminator_simps is_line_terminator_def)
        from c(2) obtain a where p: "p = a @ L1" unfolding suffix_def by blast
        have ne: "L1 \<noteq> []" using a1 by simp
        from lm p ne have "match_here (L1 @ (m @ t)) = None" unfolding leftmost_def by blast
        then have "match_here (''<link'' @ (us' @ ''<link'' @ y) @ ''>'' @ t) = None"
          unfolding a1 my by simp
        with match_here_complete [OF nt] show False by blast
      qed
      from us show False
      proof
        assume "L1 = ''<link'' @ us \<and> us @ L2 = x @ ''>''"
        then show False using first by blast
      next
        assume b: "L1 @ us = ''<link'' \<and> L2 = us @ (x @ ''>'')"
        show False
        proof (cases "us = []")
          case True
          with b have "L1 = ''<link'' @ []" "[] @ L2 = x @ ''>''" by simp_all
          then show False by (rule first)
        next
          case us: False
          with b h have hu: "hd us = CHR ''<''" by simp
          show False
          proof (cases "L1 = []")
            case True
            with c(1) have "L = L2" by simp
            with c(3) have "prefix L ''<style> ''" by simp
            then have "sublist L ''<style> ''" by (rule prefix_imp_sublist)
            with is_tag_link [OF L] have "sublist ''<link'' ''<style> ''"
              by (rule sublist_chain)
            with link_not_in_style_open show False by simp
          next
            case L1: False
            from b have "L1 @ us = ''<link''" by simp
            from split_link_head [OF this L1 us] hu show False by simp
          qed
        qed
      qed
    qed
  qed
qed

lemma no_placeholder_after_replace:
  assumes rs: "regex_search Out = Some (p, m, t)" and rt: "regex_search t = None"
    and css: "\<not> sublist ''<link'' CSS"
  shows "\<not> has_placeholder (p @ ReplacementString CSS @ t)"
proof
  assume "has_placeholder (p @ ReplacementString CSS @ t)"
  then obtain L where L: "is_tag L" and sl: "sublist L (p @ ReplacementString CSS @ t)"
    unfolding has_placeholder_sublist by blast
  have nt: "no_terminator L" by (rule is_tag_no_terminator [OF L])
  have "p @ ReplacementString CSS @ t =
          (p @ ''<style> '') @ CHR 0x0A # ((CSS @ ''</style> '') @ CHR 0x0A # t)"
    by (simp add: ReplacementString_def)
  with sl have "sublist L ((p @ ''<style> '') @ CHR 0x0A # ((CSS @ ''</style> '') @ CHR 0x0A # t))"
    by simp
  from sublist_across_newline [OF nt this]
  have "sublist L (p @ ''<style> '') \<or> sublist L ((CSS @ ''</style> '') @ CHR 0x0A # t)" .
  then show False
  proof
    assume "sublist L (p @ ''<style> '')"
    from tag_not_before_match [OF rs L this] show False .
  next
    assume "sublist L ((CSS @ ''</style> '') @ CHR 0x0A # t)"
    from sublist_across_newline [OF nt this]
    have "sublist L (CSS @ ''</style> '') \<or> sublist L t" .
    then show False
    proof
      assume "sublist L (CSS @ ''</style> '')"
      with is_tag_link [OF L] have "sublist ''<link'' (CSS @ ''</style> '')"
        by (rule sublist_chain)
      with link_not_across_style_close [OF css] show False by simp
    next
      assume "sublist L t"
      with L have "has_placeholder t" unfolding has_placeholder_sublist by blast
      with rt show False by (simp add: regex_search_None_iff)
    qed
  qed
qed

lemma match_rest_greedy: "match_rest s = Some n \<Longrightarrow> match_rest (drop n s) = None"
proof (induction s arbitrary: n)
  case Nil
  then show ?case by simp
next
  case (Cons c cs)
  from Cons.prems have c: "\<not> is_line_terminator c" by (auto split: if_splits)
  show ?case
  proof (cases "match_rest cs")
    case None
    with Cons.prems c have "n = 1" by (auto split: if_splits)
    with None show ?thesis by simp
  next
    case (Some k)
    with Cons.prems c have "n = Suc k" by simp
    with Cons.IH [OF Some] show ?thesis by simp
  qed
qed

lemma match_here_greedy: "match_here s = Some n \<Longrightarrow> match_rest (drop n s) = None"
proof -
  assume a: "match_here s = Some n"
  then obtain r k where s: "s = ''<link'' @ r" and k: "match_rest r = Some k" and n: "n = 5 + k"
    by (auto simp: match_here_def prefix_link split: if_splits)
  have n5: "n = Suc (Suc (Suc (Suc (Suc k))))" using n by simp
  have "drop n s = drop k r" unfolding s n5 by simp
  with match_rest_greedy [OF k] show ?thesis by simp
qed

lemma regex_search_greedy:
  "regex_search s = Some (p, m, t) \<Longrightarrow> match_rest t = None"
proof (induction s arbitrary: p)
  case Nil
  then show ?case by simp
next
  case (Cons c cs)
  show ?case
  proof (cases "match_here (c # cs)")
    case (Some n)
    with Cons.prems have "t = drop n (c # cs)" by simp
    with match_here_greedy [OF Some] show ?thesis by simp
  next
    case None
    from Cons.prems None have "map_option (\<lambda>(p, m, s). (c # p, m, s)) (regex_search cs) = Some (p, m, t)"
      by simp
    then obtain p' where "regex_search cs = Some (p', m, t)"
      by (cases "regex_search cs") auto
    from Cons.IH [OF this] show ?thesis .
  qed
qed

text \<open>
  C7: for a body text with no placeholder, whatever the CSS text, the inliner sends the
  body text to the output stream as it is.
\<close>

theorem C7_no_placeholder_identity:
  assumes "\<not> has_placeholder Out"
  shows "inlineCSS OS Out CSS = OS @ Out"
proof -
  from assms have "regex_search Out = None" by (simp add: regex_search_None_iff)
  then show ?thesis by (simp add: inlineCSS_def regex_replace_None)
qed

theorem C7_no_placeholder_identity_witness:
  "\<not> has_placeholder (''<a>'' @ [CHR 0x0A] @ ''<link'' @ [CHR 0x0A] @ ''>'') \<and>
   inlineCSS ''index'' (''<a>'' @ [CHR 0x0A] @ ''<link'' @ [CHR 0x0A] @ ''>'') ''$& p {}'' =
     ''index'' @ ''<a>'' @ [CHR 0x0A] @ ''<link'' @ [CHR 0x0A] @ ''>''"
proof -
  have "regex_search (''<a>'' @ [CHR 0x0A] @ ''<link'' @ [CHR 0x0A] @ ''>'') = None"
    by code_simp
  then have h: "\<not> has_placeholder (''<a>'' @ [CHR 0x0A] @ ''<link'' @ [CHR 0x0A] @ ''>'')"
    by (rule iffD1 [OF regex_search_None_iff])
  from C7_no_placeholder_identity [OF h, of "''index''" "''$& p {}''"] h
  show ?thesis by simp
qed

text \<open>
  C1 as stated fails. The replacement is not of the first occurrence only: with the
  default flags \<^verbatim>\<open>std::regex_replace\<close> replaces every match, so a body with two
  placeholders gets two style blocks. And for a body with exactly one placeholder and a
  non-empty CSS text the output need not hold the CSS text, nor be free of the pattern:
  the CSS text is the format string of the replacement, where \<open>$&\<close> stands for the
  matched text, and a CSS text may itself hold a placeholder.
\<close>

theorem C1_first_only_counterexample:
  "inlineCSS [] (''<link a>'' @ [CHR 0x0A] @ ''<link b>'') ''p {}'' =
     ''<style> '' @ [CHR 0x0A] @ ''p {}</style> '' @ [CHR 0x0A] @ [CHR 0x0A] @
     ''<style> '' @ [CHR 0x0A] @ ''p {}</style> '' @ [CHR 0x0A] \<and>
   inlineCSS [] (''<link a>'' @ [CHR 0x0A] @ ''<link b>'') ''p {}'' \<noteq>
     ''<style> '' @ [CHR 0x0A] @ ''p {}</style> '' @ [CHR 0x0A] @ [CHR 0x0A] @ ''<link b>'' \<and>
   count_matches ''<link>'' = 1 \<and>
   inlineCSS [] ''<link>'' ''$&'' = ''<style> '' @ [CHR 0x0A] @ ''<link></style> '' @ [CHR 0x0A] \<and>
   \<not> sublist ''$&'' (inlineCSS [] ''<link>'' ''$&'') \<and>
   count_matches (inlineCSS [] ''<link>'' ''$&'') = 1 \<and>
   count_matches (inlineCSS [] ''<link>'' ''/* <link> */'') = 1"
  by code_simp

text \<open>
  C1 (amended): for every body text and every CSS text that holds no \<open>$\<close>, the
  inliner replaces every occurrence of the pattern found from left to right (the
  leftmost occurrence, taken up to the last \<open>>\<close> of its line, and then again in the text
  after it) by the style block \<open><style> \<close>, newline, the CSS text, \<open></style> \<close>, newline.
  When the body holds exactly one occurrence, the output is the body with that
  occurrence replaced by one style block that wraps the CSS text; when moreover the CSS
  text does not contain \<open><link\<close>, the output holds no occurrence of the pattern.
\<close>

theorem C1_inlineCSS_every_occurrence:
  assumes "CHR ''$'' \<notin> set CSS"
  shows "(regex_search Out = Some (p, m, t) \<longrightarrow>
            Out = p @ m @ t \<and> is_tag m \<and> leftmost p (m @ t) \<and>
            (\<forall>x u. t = x @ ''>'' @ u \<longrightarrow> \<not> no_terminator x) \<and>
            inlineCSS OS Out CSS = inlineCSS (OS @ p @ ReplacementString CSS) t CSS)
       \<and> (count_matches Out = 1 \<longrightarrow>
            (\<exists>p m t. Out = p @ m @ t \<and> is_tag m \<and>
               inlineCSS OS Out CSS =
                 OS @ p @ ''<style> '' @ [CHR 0x0A] @ CSS @ ''</style> '' @ [CHR 0x0A] @ t \<and>
               (\<not> sublist ''<link'' CSS \<longrightarrow>
                  \<not> has_placeholder (p @ ''<style> '' @ [CHR 0x0A] @ CSS @ ''</style> '' @ [CHR 0x0A] @ t) \<and>
                  count_matches (p @ ''<style> '' @ [CHR 0x0A] @ CSS @ ''</style> '' @ [CHR 0x0A] @ t) = 0)))"
proof (intro conjI impI)
  note nd = ReplacementString_no_dollar [OF assms]
  {
    assume rs: "regex_search Out = Some (p, m, t)"
    from regex_search_Some [OF rs]
    show "Out = p @ m @ t" and "is_tag m" and "leftmost p (m @ t)" by simp_all
    show "\<forall>x u. t = x @ ''>'' @ u \<longrightarrow> \<not> no_terminator x"
      using regex_search_greedy [OF rs] match_rest_complete by blast
    show "inlineCSS OS Out CSS = inlineCSS (OS @ p @ ReplacementString CSS) t CSS"
      by (simp add: inlineCSS_def regex_replace_Some [OF rs] format_no_dollar [OF nd])
  }
  {
    assume one: "count_matches Out = 1"
    from count_matches_one [OF one] obtain p' m' t' where rs: "regex_search Out = Some (p', m', t')"
      and rt: "regex_search t' = None" by blast
    let ?new = "p' @ ''<style> '' @ [CHR 0x0A] @ CSS @ ''</style> '' @ [CHR 0x0A] @ t'"
    have new: "?new = p' @ ReplacementString CSS @ t'" by (simp add: ReplacementString_def)
    from regex_search_Some [OF rs] have a: "Out = p' @ m' @ t'" and b: "is_tag m'" by simp_all
    have c: "inlineCSS OS Out CSS = OS @ ?new"
      unfolding new
      by (simp add: inlineCSS_def regex_replace_Some [OF rs] regex_replace_None [OF rt]
          format_no_dollar [OF nd])
    have d: "\<not> sublist ''<link'' CSS \<longrightarrow> \<not> has_placeholder ?new \<and> count_matches ?new = 0"
    proof
      assume css: "\<not> sublist ''<link'' CSS"
      from no_placeholder_after_replace [OF rs rt css]
      have "\<not> has_placeholder ?new" unfolding new .
      then show "\<not> has_placeholder ?new \<and> count_matches ?new = 0"
        by (simp add: count_matches_zero regex_search_None_iff)
    qed
    from a b c d
    show "\<exists>p m t. Out = p @ m @ t \<and> is_tag m \<and>
               inlineCSS OS Out CSS =
                 OS @ p @ ''<style> '' @ [CHR 0x0A] @ CSS @ ''</style> '' @ [CHR 0x0A] @ t \<and>
               (\<not> sublist ''<link'' CSS \<longrightarrow>
                  \<not> has_placeholder (p @ ''<style> '' @ [CHR 0x0A] @ CSS @ ''</style> '' @ [CHR 0x0A] @ t) \<and>
                  count_matches (p @ ''<style> '' @ [CHR 0x0A] @ CSS @ ''</style> '' @ [CHR 0x0A] @ t) = 0)"
      by blast
  }
qed

theorem C1_inlineCSS_every_occurrence_witness:
  "CHR ''$'' \<notin> set ''p {}'' \<and>
   inlineCSS [] (''<link a>'' @ [CHR 0x0A] @ ''<link b>'') ''p {}'' =
     inlineCSS (ReplacementString ''p {}'') (CHR 0x0A # ''<link b>'') ''p {}'' \<and>
   count_matches (''<head><link rel=stylesheet href=x.css></head>'' @ [CHR 0x0A] @ ''<body>'') = 1 \<and>
   (\<exists>p m t. ''<head><link rel=stylesheet href=x.css></head>'' @ [CHR 0x0A] @ ''<body>'' = p @ m @ t \<and>
      is_tag m \<and>
      inlineCSS [] (''<head><link rel=stylesheet href=x.css></head>'' @ [CHR 0x0A] @ ''<body>'') ''p {}'' =
        p @ ''<style> '' @ [CHR 0x0A] @ ''p {}'' @ ''</style> '' @ [CHR 0x0A] @ t \<and>
      \<not> has_placeholder (p @ ''<style> '' @ [CHR 0x0A] @ ''p {}'' @ ''</style> '' @ [CHR 0x0A] @ t))"
proof -
  let ?two = "''<link a>'' @ [CHR 0x0A] @ ''<link b>''"
  let ?one = "''<head><link rel=stylesheet href=x.css></head>'' @ [CHR 0x0A] @ ''<body>''"
  have nd: "CHR ''$'' \<notin> set ''p {}''" by simp
  have rs: "regex_search ?two = Some ([], ''<link a>'', CHR 0x0A # ''<link b>'')" by code_simp
  have one: "count_matches ?one = 1" by code_simp
  have css: "\<not> sublist ''<link'' ''p {}''" by code_simp
  note r2 = C1_inlineCSS_every_occurrence
    [OF nd, where Out = ?two and p = "[]" and m = "''<link a>''" and t = "CHR 0x0A # ''<link b>''"
       and OS = "[]"]
  from mp [OF conjunct1 [OF r2] rs]
  have a: "inlineCSS [] ?two ''p {}'' = inlineCSS (ReplacementString ''p {}'') (CHR 0x0A # ''<link b>'') ''p {}''"
    by simp
  note r1 = C1_inlineCSS_every_occurrence
    [OF nd, where Out = ?one and p = "[]" and m = "[]" and t = "[]" and OS = "[]"]
  from mp [OF conjunct2 [OF r1] one] obtain p m t where
    b: "?one = p @ m @ t" "is_tag m"
       "inlineCSS [] ?one ''p {}'' = [] @ p @ ''<style> '' @ [CHR 0x0A] @ ''p {}'' @ ''</style> '' @ [CHR 0x0A] @ t"
       "\<not> sublist ''<link'' ''p {}'' \<longrightarrow>
          \<not> has_placeholder (p @ ''<style> '' @ [CHR 0x0A] @ ''p {}'' @ ''</style> '' @ [CHR 0x0A] @ t) \<and>
          count_matches (p @ ''<style> '' @ [CHR 0x0A] @ ''p {}'' @ ''</style> '' @ [CHR 0x0A] @ t) = 0"
    by blast
  from b(4) css have c: "\<not> has_placeholder (p @ ''<style> '' @ [CHR 0x0A] @ ''p {}'' @ ''</style> '' @ [CHR 0x0A] @ t)"
    by blast
  from b(3) have b3: "inlineCSS [] ?one ''p {}'' = p @ ''<style> '' @ [CHR 0x0A] @ ''p {}'' @ ''</style> '' @ [CHR 0x0A] @ t"
    by simp
  from nd a one b(1,2) b3 c show ?thesis by blast
qed

end
